theory Spec2Isabelle
  imports Main
begin

section \<open>Host library: tokens, errors, string formatting\<close>

text \<open>
  The checkstyle core of \<^verbatim>\<open>twitter/checkstyle/common.py\<close> sits on three services of the
  Python host: \<^verbatim>\<open>str.splitlines\<close>, \<^verbatim>\<open>ast.parse\<close> and \<^verbatim>\<open>tokenize.generate_tokens\<close>.
  They are not part of the repository, so they are parameters of the model (the record
  \<open>host\<close> below). A token is the prefix \<^verbatim>\<open>token[0:3]\<close> that the code reads: its type, its
  text and its start position (row, column).
\<close>

datatype tok_type =
  ENDMARKER | NAME | NUMBER | STRING | NEWLINE | INDENT | DEDENT | OP | COMMENT | NL | ERRORTOKEN

type_synonym token = "tok_type \<times> string \<times> (int \<times> int)"

datatype error = IndexError | KeyError | ValueError | TypeError | SyntaxError | TokenError | IOError

text \<open>
  A Python generator is modelled by what it yields and by the exception that ends it, if
  any: \<open>(items, None)\<close> is a generator that is exhausted normally.
\<close>

type_synonym 'a generator = "'a list \<times> error option"

text \<open>
  \<open>generate_tokens h text\<close> is what the tokenizer yields when its \<^verbatim>\<open>readline\<close> argument
  delivers the lines of \<open>text\<close>, and \<open>chars_read h text\<close> is how many characters of \<open>text\<close> it
  has read through \<^verbatim>\<open>readline\<close> when its generator ends (all of them when it ends normally).
\<close>

record 'tree host =
  splitlines :: "string \<Rightarrow> string list"
  ast_parse :: "string \<Rightarrow> string \<Rightarrow> error + 'tree"
  generate_tokens :: "string \<Rightarrow> token generator"
  chars_read :: "string \<Rightarrow> nat"

definition LF :: string where
  "LF = [CHR 0x0A]"

text \<open>
  \<^verbatim>\<open>str.isspace\<close>: at least one character, and all of them whitespace. The whitespace
  characters are those of Python 3 among the code points below 256 (a byte string of
  Python 2 counts only \<open>0x09\<close> to \<open>0x0D\<close> and \<open>0x20\<close>).
\<close>

definition whitespace :: "char set" where
  "whitespace =
     {CHR 0x09, CHR 0x0A, CHR 0x0B, CHR 0x0C, CHR 0x0D, CHR 0x1C, CHR 0x1D, CHR 0x1E, CHR 0x1F,
      CHR 0x20, CHR 0x85, CHR 0xA0}"

definition isspace :: "string \<Rightarrow> bool" where
  "isspace s = (s \<noteq> [] \<and> list_all (\<lambda>c. c \<in> whitespace) s)"

text \<open>Decimal rendering, for the formats \<^verbatim>\<open>%d\<close>, \<^verbatim>\<open>%03d\<close> and \<^verbatim>\<open>%-7s\<close>.\<close>

definition digit_char :: "nat \<Rightarrow> char" where
  "digit_char d = ''0123456789'' ! d"

fun digits :: "nat \<Rightarrow> string" where
  "digits n = (if n < 10 then [digit_char n] else digits (n div 10) @ [digit_char (n mod 10)])"

declare digits.simps [simp del]

definition zero_pad :: "nat \<Rightarrow> string \<Rightarrow> string" where
  "zero_pad w s = replicate (w - length s) (CHR ''0'') @ s"

definition fmt_d :: "int \<Rightarrow> string" where
  "fmt_d x = (if x < 0 then ''-'' @ digits (nat (- x)) else digits (nat x))"

definition fmt_03d :: "int \<Rightarrow> string" where
  "fmt_03d x = (if x < 0 then ''-'' @ zero_pad 2 (digits (nat (- x))) else zero_pad 3 (digits (nat x)))"

definition ljust :: "nat \<Rightarrow> string \<Rightarrow> string" where
  "ljust w s = s @ replicate (w - length s) (CHR '' '')"

section \<open>PythonFile\<close>

definition SKIP_TOKENS :: "tok_type set" where
  "SKIP_TOKENS = {COMMENT, NL, DEDENT}"

definition iter_tokens :: "'tree host \<Rightarrow> string \<Rightarrow> token generator" where
  "iter_tokens h blob = generate_tokens h blob"

text \<open>
  \<^verbatim>\<open>translate_logical_line\<close>: the two \<^verbatim>\<open>while\<close> loops pop newline texts off the front and
  off the back of \<open>contents\<close>. Reading \<^verbatim>\<open>contents[0]\<close> or \<^verbatim>\<open>contents[-1]\<close> of an empty list
  raises \<open>IndexError\<close>.
\<close>

fun trim_front :: "int \<Rightarrow> string list \<Rightarrow> error + (int \<times> string list)" where
  "trim_front start [] = Inl IndexError"
| "trim_front start (c # cs) =
     (if c = LF then trim_front (start + 1) cs else Inr (start, c # cs))"

function trim_back :: "int \<Rightarrow> string list \<Rightarrow> error + (int \<times> string list)" where
  "trim_back end contents =
     (if contents = [] then Inl IndexError
      else if last contents = LF then trim_back (end - 1) (butlast contents)
      else Inr (end, contents))"
  by pat_completeness auto
termination
  by (relation "measure (\<lambda>(e, cs). length cs)") auto

declare trim_back.simps [simp del]

definition translate_logical_line ::
  "int \<Rightarrow> int \<Rightarrow> string list \<Rightarrow> error + (int \<times> int \<times> nat)" where
  "translate_logical_line start end contents =
     (case trim_front start contents of
        Inl e \<Rightarrow> Inl e
      | Inr (start', contents') \<Rightarrow>
          (case trim_back end contents' of
             Inl e \<Rightarrow> Inl e
           | Inr (end', contents'') \<Rightarrow>
               (case contents'' of
                  [] \<Rightarrow> Inl IndexError
                | c # _ \<Rightarrow> Inr (start', end' + 1, if isspace c then length c else 0))))"

text \<open>
  The \<^verbatim>\<open>for\<close> loop of \<^verbatim>\<open>iter_logical_lines\<close>, with its two variables \<open>contents\<close> and
  \<open>line_number_start\<close> as arguments. An exception of \<^verbatim>\<open>translate_logical_line\<close> ends the
  generator.
\<close>

fun logical_lines_loop ::
  "string list \<Rightarrow> int option \<Rightarrow> token list \<Rightarrow> (int \<times> int \<times> nat) generator" where
  "logical_lines_loop contents line_number_start [] = ([], None)"
| "logical_lines_loop contents line_number_start ((token_type, token_text, token_start) # rest) =
     (if token_type \<in> SKIP_TOKENS then logical_lines_loop contents line_number_start rest
      else
        (case line_number_start of
           None \<Rightarrow> logical_lines_loop (contents @ [token_text]) (Some (fst token_start)) rest
         | Some start \<Rightarrow>
             if token_type = NEWLINE \<or> token_type = ENDMARKER then
               (case translate_logical_line start
                       (fst token_start + (if token_type = NEWLINE then 1 else - 1))
                       (filter (\<lambda>t. t \<noteq> []) (contents @ [token_text])) of
                  Inl e \<Rightarrow> ([], Some e)
                | Inr line \<Rightarrow>
                    (case logical_lines_loop [] None rest of
                       (later, err) \<Rightarrow> (line # later, err)))
             else logical_lines_loop (contents @ [token_text]) (Some start) rest))"

definition iter_logical_lines :: "'tree host \<Rightarrow> string \<Rightarrow> (int \<times> int \<times> nat) generator" where
  "iter_logical_lines h blob =
     (case iter_tokens h blob of
        (toks, tokenize_err) \<Rightarrow>
          (case logical_lines_loop [] None toks of
             (found, Some e) \<Rightarrow> (found, Some e)
           | (found, None) \<Rightarrow> (found, tokenize_err)))"

record 'tree PythonFile =
  blob :: string
  tree :: 'tree
  lines :: "string option list"
  filename :: string
  logical_lines :: "int \<rightharpoonup> (int \<times> int \<times> nat)"

text \<open>
  \<^verbatim>\<open>dict((start, (start, stop, indent)) for ...)\<close>: a later pair with the same key replaces
  an earlier one.
\<close>

definition index_of_lines :: "(int \<times> int \<times> nat) list \<Rightarrow> (int \<rightharpoonup> (int \<times> int \<times> nat))" where
  "index_of_lines found =
     map_of (rev (map (\<lambda>(start, stop, indent). (start, (start, stop, indent))) found))"

definition PythonFile_init :: "'tree host \<Rightarrow> string \<Rightarrow> string \<Rightarrow> error + 'tree PythonFile" where
  "PythonFile_init h blob' filename' =
     (case ast_parse h blob' filename' of
        Inl e \<Rightarrow> Inl e
      | Inr tree' \<Rightarrow>
          (case iter_logical_lines h blob' of
             (found, Some e) \<Rightarrow> Inl e
           | (found, None) \<Rightarrow>
               Inr \<lparr> blob = blob', tree = tree',
                     lines = None # map Some (splitlines h blob'),
                     filename = filename',
                     logical_lines = index_of_lines found \<rparr>))"

definition tokens :: "'tree host \<Rightarrow> 'tree PythonFile \<Rightarrow> token generator" where
  "tokens h pf = iter_tokens h (blob pf)"

subsection \<open>Token generators as objects\<close>

text \<open>
  \<open>tokens h pf\<close> above is the sequence that one access of the property yields when it is
  consumed. The objects behind it have state: \<^verbatim>\<open>StringIO(blob)\<close> is a stream with a read
  position, and \<^verbatim>\<open>tokenize.generate_tokens(readline)\<close> is a generator that reads its stream
  only when it is consumed and yields nothing once it has ended. The store holds the
  streams and the generators (its stream, and whether it has ended) by address.
\<close>

record stream =
  buffer :: string
  position :: nat

record store =
  streams :: "stream list"
  generators :: "(nat \<times> bool) list"

definition StringIO :: "string \<Rightarrow> store \<Rightarrow> nat \<times> store" where
  "StringIO initial st =
     (length (streams st),
      st\<lparr> streams := streams st @ [\<lparr> buffer = initial, position = 0 \<rparr>] \<rparr>)"

definition generator_object :: "nat \<Rightarrow> store \<Rightarrow> nat \<times> store" where
  "generator_object source st =
     (length (generators st), st\<lparr> generators := generators st @ [(source, False)] \<rparr>)"

definition iter_tokens_object :: "string \<Rightarrow> store \<Rightarrow> nat \<times> store" where
  "iter_tokens_object blob' st =
     (case StringIO blob' st of (source, st') \<Rightarrow> generator_object source st')"

definition tokens_object :: "'tree PythonFile \<Rightarrow> store \<Rightarrow> nat \<times> store" where
  "tokens_object pf st = iter_tokens_object (blob pf) st"

text \<open>
  Consuming the generator at address \<open>g\<close> to its end: the tokenizer reads from the position
  of its stream on, the stream advances by what was read, and the generator has ended.
\<close>

definition fold_tokens :: "'tree host \<Rightarrow> nat \<Rightarrow> store \<Rightarrow> token generator \<times> store" where
  "fold_tokens h g st =
     (if g \<ge> length (generators st) then (([], None), st)
      else
        (case generators st ! g of
           (source, ended) \<Rightarrow>
             if ended \<or> source \<ge> length (streams st) then (([], None), st)
             else
               (let s = streams st ! source;
                    rest = drop (position s) (buffer s);
                    s' = s\<lparr> position := position s + min (chars_read h rest) (length rest) \<rparr>
                in (generate_tokens h rest,
                    st\<lparr> streams := (streams st)[source := s'],
                        generators := (generators st)[g := (source, True)] \<rparr>))))"

text \<open>\<^verbatim>\<open>line_range\<close> returns \<^verbatim>\<open>slice(start, stop)\<close>, here the pair \<open>(start, stop)\<close>.\<close>

definition line_range :: "'tree PythonFile \<Rightarrow> int \<Rightarrow> error + (int \<times> int)" where
  "line_range pf line_number =
     (if line_number \<le> 0 \<or> line_number \<ge> int (length (lines pf)) then Inl IndexError
      else
        (case logical_lines pf line_number of
           None \<Rightarrow> Inr (line_number, line_number + 1)
         | Some (start, stop, _) \<Rightarrow> Inr (start, stop)))"

text \<open>The number of physical lines of the file: \<^verbatim>\<open>len(self._lines) - 1\<close>.\<close>

definition line_count :: "'tree PythonFile \<Rightarrow> int" where
  "line_count pf = int (length (lines pf)) - 1"

section \<open>Nit\<close>

definition Nit_COMMENT :: int where "Nit_COMMENT = 0"
definition Nit_WARNING :: int where "Nit_WARNING = 1"
definition Nit_ERROR :: int where "Nit_ERROR = 2"

definition SEVERITY :: "int \<rightharpoonup> string" where
  "SEVERITY = [Nit_COMMENT \<mapsto> ''COMMENT'', Nit_WARNING \<mapsto> ''WARNING'', Nit_ERROR \<mapsto> ''ERROR'']"

record 'tree Nit =
  python_file :: "'tree PythonFile"
  nit_severity :: int
  nit_message :: string
  nit_line_number :: "int option"

text \<open>
  \<^verbatim>\<open>' '.join(self.SEVERITY)\<close> joins the keys of the dictionary, which are the integers 0, 1
  and 2. \<^verbatim>\<open>str.join\<close> raises \<open>TypeError\<close> at the first item that is not a string.
\<close>

datatype py_value = PyInt int | PyStr string

fun str_join :: "string \<Rightarrow> py_value list \<Rightarrow> error + string" where
  "str_join sep [] = Inr []"
| "str_join sep (PyInt n # rest) = Inl TypeError"
| "str_join sep (PyStr s # rest) =
     (case str_join sep rest of
        Inl e \<Rightarrow> Inl e
      | Inr joined \<Rightarrow> Inr (if rest = [] then s else s @ sep @ joined))"

definition SEVERITY_keys :: "py_value list" where
  "SEVERITY_keys = [PyInt Nit_COMMENT, PyInt Nit_WARNING, PyInt Nit_ERROR]"

text \<open>
  The constructor. The argument of \<^verbatim>\<open>ValueError(...)\<close> is evaluated before the exception
  exists, so an exception of the join is the one that is raised.
\<close>

definition Nit_init ::
  "int \<Rightarrow> 'tree PythonFile \<Rightarrow> string \<Rightarrow> int option \<Rightarrow> error + 'tree Nit" where
  "Nit_init severity' python_file' message' line_number' =
     (if severity' \<notin> dom SEVERITY then
        (case str_join '' '' SEVERITY_keys of
           Inl e \<Rightarrow> Inl e
         | Inr names \<Rightarrow> Inl ValueError)
      else Inr \<lparr> python_file = python_file', nit_severity = severity',
                 nit_message = message', nit_line_number = line_number' \<rparr>)"

text \<open>
  The property \<^verbatim>\<open>line_number\<close>. The test \<^verbatim>\<open>if self._line_number:\<close> is false for \<^verbatim>\<open>None\<close> and
  for 0, and the property then returns \<^verbatim>\<open>None\<close>.
\<close>

definition line_number :: "'tree Nit \<Rightarrow> error + string option" where
  "line_number nit =
     (case nit_line_number nit of
        None \<Rightarrow> Inr None
      | Some n \<Rightarrow>
          if n = 0 then Inr None
          else
            (case line_range (python_file nit) n of
               Inl e \<Rightarrow> Inl e
             | Inr (start, stop) \<Rightarrow>
                 if stop - start > 1 then Inr (Some (fmt_03d start @ ''-'' @ fmt_03d (stop - 1)))
                 else Inr (Some (fmt_03d start))))"

text \<open>The rendered line number of a message: \<^verbatim>\<open>self.line_number or '*'\<close>.\<close>

definition rendered_line_number :: "'tree Nit \<Rightarrow> error + string" where
  "rendered_line_number nit =
     (case line_number nit of
        Inl e \<Rightarrow> Inl e
      | Inr None \<Rightarrow> Inr ''*''
      | Inr (Some s) \<Rightarrow> Inr (if s = [] then ''*'' else s))"

definition message :: "'tree Nit \<Rightarrow> error + string" where
  "message nit =
     (case SEVERITY (nit_severity nit) of
        None \<Rightarrow> Inl KeyError
      | Some label \<Rightarrow>
          (case rendered_line_number nit of
             Inl e \<Rightarrow> Inl e
           | Inr ln \<Rightarrow>
               Inr (ljust 7 label @ '' '' @ filename (python_file nit) @ '':'' @ ln @ '' ''
                    @ nit_message nit)))"

definition StyleWarning :: "'tree PythonFile \<Rightarrow> string \<Rightarrow> int option \<Rightarrow> error + 'tree Nit" where
  "StyleWarning pf msg ln = Nit_init Nit_WARNING pf msg ln"

definition StyleError :: "'tree PythonFile \<Rightarrow> string \<Rightarrow> int option \<Rightarrow> error + 'tree Nit" where
  "StyleError pf msg ln = Nit_init Nit_ERROR pf msg ln"

section \<open>CheckstylePlugin\<close>

text \<open>
  The constructor calls \<^verbatim>\<open>line_filter()\<close> once and keeps the list of its results; the
  argument of the model is that list, or \<open>None\<close> for no filter.
\<close>

record 'tree CheckstylePlugin =
  plugin_file :: "'tree PythonFile"
  affected_lines :: "int list option"

definition CheckstylePlugin_init ::
  "'tree PythonFile \<Rightarrow> int list option \<Rightarrow> 'tree CheckstylePlugin" where
  "CheckstylePlugin_init pf line_filter = \<lparr> plugin_file = pf, affected_lines = line_filter \<rparr>"

text \<open>\<^verbatim>\<open>range(start, stop)\<close> on integers.\<close>

definition py_range :: "int \<Rightarrow> int \<Rightarrow> int list" where
  "py_range start stop = [start..stop - 1]"

text \<open>
  \<^verbatim>\<open>__iter__\<close> over the diagnostics that the abstract \<^verbatim>\<open>nits()\<close> yields. An out-of-range
  anchor makes \<^verbatim>\<open>line_range\<close> raise, which ends the iteration.
\<close>

fun plugin_iter :: "'tree CheckstylePlugin \<Rightarrow> 'tree Nit list \<Rightarrow> 'tree Nit generator" where
  "plugin_iter p [] = ([], None)"
| "plugin_iter p (nit # rest) =
     (if nit_line_number nit = None \<or> affected_lines p = None then
        (case plugin_iter p rest of (later, err) \<Rightarrow> (nit # later, err))
      else
        (case line_range (plugin_file p) (the (nit_line_number nit)) of
           Inl e \<Rightarrow> ([], Some e)
         | Inr (start, stop) \<Rightarrow>
             if list_ex (\<lambda>line. line \<in> set (the (affected_lines p))) (py_range start stop) then
               (case plugin_iter p rest of (later, err) \<Rightarrow> (nit # later, err))
             else plugin_iter p rest))"

definition errors :: "'tree CheckstylePlugin \<Rightarrow> 'tree Nit list \<Rightarrow> 'tree Nit generator" where
  "errors p ns =
     (case plugin_iter p ns of
        (found, err) \<Rightarrow> (filter (\<lambda>nit. nit_severity nit = Nit_ERROR) found, err))"

section \<open>The Indentation plugin\<close>

definition INDENT_LEVEL :: int where
  "INDENT_LEVEL = 2"

text \<open>
  The \<^verbatim>\<open>for\<close> loop of \<^verbatim>\<open>Indentation.nits\<close>, with the stack \<open>indents\<close> as argument (its top is
  the last element). \<^verbatim>\<open>indents.pop()\<close> on an empty stack raises \<open>IndexError\<close>.
\<close>

fun nits_loop :: "'tree PythonFile \<Rightarrow> string list \<Rightarrow> token list \<Rightarrow> 'tree Nit generator" where
  "nits_loop pf indents [] = ([], None)"
| "nits_loop pf indents ((token_type, token_text, token_start) # rest) =
     (if token_type = INDENT then
        (let last_indent = (if indents \<noteq> [] then int (length (last indents)) else 0);
             current_indent = int (length token_text)
         in if current_indent - last_indent \<noteq> INDENT_LEVEL then
              (case StyleError pf
                      (''Indentation of '' @ fmt_d (current_indent - last_indent)
                         @ '' instead of '' @ fmt_d INDENT_LEVEL)
                      (Some (fst token_start)) of
                 Inl e \<Rightarrow> ([], Some e)
               | Inr nit \<Rightarrow>
                   (case nits_loop pf (indents @ [token_text]) rest of
                      (later, err) \<Rightarrow> (nit # later, err)))
            else nits_loop pf (indents @ [token_text]) rest)
      else if token_type = DEDENT then
        (if indents = [] then ([], Some IndexError) else nits_loop pf (butlast indents) rest)
      else nits_loop pf indents rest)"

definition nits :: "'tree host \<Rightarrow> 'tree PythonFile \<Rightarrow> 'tree Nit generator" where
  "nits h pf =
     (case tokens h pf of
        (toks, tokenize_err) \<Rightarrow>
          (case nits_loop pf [] toks of
             (found, Some e) \<Rightarrow> (found, Some e)
           | (found, None) \<Rightarrow> (found, tokenize_err)))"

section \<open>Notions used to state the properties\<close>

subsection \<open>Token streams of text with plain newlines\<close>

text \<open>
  The tokens that \<^verbatim>\<open>iter_logical_lines\<close> does not skip.
\<close>

definition significant :: "token list \<Rightarrow> token list" where
  "significant toks = filter (\<lambda>(token_type, _, _). token_type \<notin> SKIP_TOKENS) toks"

text \<open>
  What the tokenizer guarantees about rows: they start at 1, never decrease, a token after
  a \<open>NEWLINE\<close> lies on a later row, and \<open>ENDMARKER\<close> lies on a later row than the token
  before it. \<open>rows_ok after_newline prev\<close> carries the row of the previous token.
\<close>

fun rows_ok :: "bool \<Rightarrow> int \<Rightarrow> token list \<Rightarrow> bool" where
  "rows_ok after_newline prev [] = True"
| "rows_ok after_newline prev ((token_type, token_text, token_start) # rest) =
     ((if after_newline \<or> token_type = ENDMARKER then prev < fst token_start
       else prev \<le> fst token_start)
      \<and> rows_ok (token_type = NEWLINE) (fst token_start) rest)"

text \<open>
  In a file of \<open>n\<close> lines that end in a plain line feed, a \<open>NEWLINE\<close> token has the text
  \<open>LF\<close> and a row of the file, \<open>ENDMARKER\<close> has the empty text and a row up to \<open>n + 1\<close>,
  and no other token has the text \<open>LF\<close>.
\<close>

fun token_ok :: "int \<Rightarrow> token \<Rightarrow> bool" where
  "token_ok n (token_type, token_text, token_start) =
     (if token_type = NEWLINE then token_text = LF \<and> fst token_start \<le> n
      else if token_type = ENDMARKER then token_text = [] \<and> fst token_start \<le> n + 1
      else token_text \<noteq> LF)"

definition lf_tokenized :: "int \<Rightarrow> token list \<Rightarrow> bool" where
  "lf_tokenized n toks =
     (rows_ok True 0 (significant toks) \<and> list_all (token_ok n) (significant toks))"

subsection \<open>Spans\<close>

text \<open>
  A chain of spans: each one starts at or after \<open>lo\<close>, is not empty, ends at or before
  \<open>hi\<close>, and the next one starts at or after its stop.
\<close>

fun spans_ok :: "int \<Rightarrow> int \<Rightarrow> (int \<times> int \<times> nat) list \<Rightarrow> bool" where
  "spans_ok lo hi [] = True"
| "spans_ok lo hi ((start, stop, indent) # rest) =
     (lo \<le> start \<and> start < stop \<and> stop \<le> hi \<and> spans_ok stop hi rest)"

definition covers :: "int \<Rightarrow> int \<times> int \<Rightarrow> bool" where
  "covers n span = (fst span \<le> n \<and> n < snd span)"

definition recognized_spans :: "(int \<times> int \<times> nat) list \<Rightarrow> (int \<times> int) list" where
  "recognized_spans found = map (\<lambda>(start, stop, indent). (start, stop)) found"

definition fallback_spans :: "'tree PythonFile \<Rightarrow> (int \<times> int) list" where
  "fallback_spans pf =
     map (\<lambda>n. (n, n + 1)) (filter (\<lambda>n. logical_lines pf n = None) [1..line_count pf])"

text \<open>
  The spans that cover line \<open>n\<close>, among the logical lines that the builder found and the
  single-line spans of the lines that are not the start of one.
\<close>

definition covering_spans ::
  "(int \<times> int \<times> nat) list \<Rightarrow> 'tree PythonFile \<Rightarrow> int \<Rightarrow> (int \<times> int) list" where
  "covering_spans found pf n = filter (covers n) (recognized_spans found @ fallback_spans pf)"

definition continuation_line :: "(int \<times> int \<times> nat) list \<Rightarrow> int \<Rightarrow> bool" where
  "continuation_line found n = list_ex (\<lambda>(start, stop, indent). start < n \<and> n < stop) found"

subsection \<open>The affected-line filter\<close>

text \<open>
  A diagnostic resolves when the filter has no line range to look up, or the look-up of
  its anchor succeeds.
\<close>

definition resolves :: "'tree CheckstylePlugin \<Rightarrow> 'tree Nit \<Rightarrow> bool" where
  "resolves p nit =
     (nit_line_number nit = None \<or> affected_lines p = None \<or>
      (case line_range (plugin_file p) (the (nit_line_number nit)) of
         Inl e \<Rightarrow> False | Inr span \<Rightarrow> True))"

definition passes_filter :: "'tree CheckstylePlugin \<Rightarrow> 'tree Nit \<Rightarrow> bool" where
  "passes_filter p nit =
     (nit_line_number nit = None \<or> affected_lines p = None \<or>
      (case line_range (plugin_file p) (the (nit_line_number nit)) of
         Inl e \<Rightarrow> False
       | Inr span \<Rightarrow> list_ex (\<lambda>line. covers line span) (the (affected_lines p))))"

subsection \<open>The indent stack\<close>

text \<open>
  The stack after a run of tokens: \<open>INDENT\<close> pushes its text, \<open>DEDENT\<close> pops, any other
  token leaves the stack as it is.
\<close>

definition push_pop :: "string list \<Rightarrow> token \<Rightarrow> string list" where
  "push_pop indents t =
     (if fst t = INDENT then indents @ [fst (snd t)]
      else if fst t = DEDENT then butlast indents
      else indents)"

fun indent_stack :: "string list \<Rightarrow> token list \<Rightarrow> string list" where
  "indent_stack indents [] = indents"
| "indent_stack indents (t # rest) = indent_stack (push_pop indents t) rest"

definition top_width :: "string list \<Rightarrow> int" where
  "top_width indents = (if indents = [] then 0 else int (length (last indents)))"

text \<open>The step from the top of the stack to the token at position \<open>i\<close>.\<close>

definition indent_delta :: "string list \<Rightarrow> token list \<Rightarrow> nat \<Rightarrow> int" where
  "indent_delta indents toks i =
     int (length (fst (snd (toks ! i)))) - top_width (indent_stack indents (take i toks))"

definition bad_indent :: "string list \<Rightarrow> token list \<Rightarrow> nat \<Rightarrow> bool" where
  "bad_indent indents toks i =
     (fst (toks ! i) = INDENT \<and> indent_delta indents toks i \<noteq> INDENT_LEVEL)"

definition dedents_balanced :: "string list \<Rightarrow> token list \<Rightarrow> bool" where
  "dedents_balanced indents toks =
     list_all (\<lambda>i. fst (toks ! i) = DEDENT \<longrightarrow> indent_stack indents (take i toks) \<noteq> [])
       [0..<length toks]"

definition indent_error :: "'tree PythonFile \<Rightarrow> string list \<Rightarrow> token list \<Rightarrow> nat \<Rightarrow> 'tree Nit" where
  "indent_error pf indents toks i =
     \<lparr> python_file = pf, nit_severity = Nit_ERROR,
       nit_message = ''Indentation of '' @ fmt_d (indent_delta indents toks i)
                       @ '' instead of '' @ fmt_d INDENT_LEVEL,
       nit_line_number = Some (fst (snd (snd (toks ! i)))) \<rparr>"

section \<open>Example inputs\<close>

text \<open>A host that answers every call with the given lines and tokens.\<close>

definition fixed_host :: "string list \<Rightarrow> token list \<Rightarrow> unit host" where
  "fixed_host ls toks =
     \<lparr> splitlines = (\<lambda>_. ls), ast_parse = (\<lambda>_ _. Inr ()), generate_tokens = (\<lambda>_. (toks, None)),
       chars_read = length \<rparr>"

text \<open>\<^verbatim>\<open>x = 1\<close> with a line feed.\<close>

definition assign_tokens :: "token list" where
  "assign_tokens =
     [(NAME, ''x'', (1, 0)), (OP, ''='', (1, 2)), (NUMBER, ''1'', (1, 4)),
      (NEWLINE, LF, (1, 5)), (ENDMARKER, [], (2, 0))]"

definition assign_host :: "unit host" where
  "assign_host = fixed_host [''x = 1''] assign_tokens"

text \<open>\<^verbatim>\<open>x = 1\<close> with carriage return and line feed.\<close>

definition CRLF :: string where
  "CRLF = [CHR 0x0D, CHR 0x0A]"

definition crlf_tokens :: "token list" where
  "crlf_tokens =
     [(NAME, ''x'', (1, 0)), (OP, ''='', (1, 2)), (NUMBER, ''1'', (1, 4)),
      (NEWLINE, CRLF, (1, 5)), (ENDMARKER, [], (2, 0))]"

definition crlf_host :: "unit host" where
  "crlf_host = fixed_host [''x = 1''] crlf_tokens"

text \<open>The two lines \<^verbatim>\<open>x = 1\<close> and \<^verbatim>\<open>y = 2\<close>, each with carriage return and line feed.\<close>

definition crlf2_tokens :: "token list" where
  "crlf2_tokens =
     [(NAME, ''x'', (1, 0)), (OP, ''='', (1, 2)), (NUMBER, ''1'', (1, 4)),
      (NEWLINE, CRLF, (1, 5)),
      (NAME, ''y'', (2, 0)), (OP, ''='', (2, 2)), (NUMBER, ''2'', (2, 4)),
      (NEWLINE, CRLF, (2, 5)), (ENDMARKER, [], (3, 0))]"

definition crlf2_host :: "unit host" where
  "crlf2_host = fixed_host [''x = 1'', ''y = 2''] crlf2_tokens"

text \<open>The statement \<^verbatim>\<open>x = (1,\<close> / \<^verbatim>\<open> 2)\<close> on two lines.\<close>

definition paren_tokens :: "token list" where
  "paren_tokens =
     [(NAME, ''x'', (1, 0)), (OP, ''='', (1, 2)), (OP, ''('', (1, 4)), (NUMBER, ''1'', (1, 5)),
      (OP, '','', (1, 6)), (NL, LF, (1, 7)),
      (NUMBER, ''2'', (2, 1)), (OP, '')'', (2, 2)), (NEWLINE, LF, (2, 3)),
      (ENDMARKER, [], (3, 0))]"

definition paren_host :: "unit host" where
  "paren_host = fixed_host [''x = (1,'', '' 2)''] paren_tokens"

text \<open>The same statement followed by \<^verbatim>\<open>y = 3\<close> on line 3.\<close>

definition pair_tokens :: "token list" where
  "pair_tokens =
     [(NAME, ''x'', (1, 0)), (OP, ''='', (1, 2)), (OP, ''('', (1, 4)), (NUMBER, ''1'', (1, 5)),
      (OP, '','', (1, 6)), (NL, LF, (1, 7)),
      (NUMBER, ''2'', (2, 1)), (OP, '')'', (2, 2)), (NEWLINE, LF, (2, 3)),
      (NAME, ''y'', (3, 0)), (OP, ''='', (3, 2)), (NUMBER, ''3'', (3, 4)), (NEWLINE, LF, (3, 5)),
      (ENDMARKER, [], (4, 0))]"

definition pair_host :: "unit host" where
  "pair_host = fixed_host [''x = (1,'', '' 2)'', ''y = 3''] pair_tokens"

text \<open>
  \<^verbatim>\<open>x = 1\<close>, then a line that holds only a backslash, then an empty line: the tokenizer
  yields a second \<open>NEWLINE\<close> for the continued empty line.
\<close>

definition backslash_tokens :: "token list" where
  "backslash_tokens =
     [(NAME, ''x'', (1, 0)), (OP, ''='', (1, 2)), (NUMBER, ''1'', (1, 4)), (NEWLINE, LF, (1, 5)),
      (NEWLINE, LF, (3, 0)), (ENDMARKER, [], (4, 0))]"

definition backslash_host :: "unit host" where
  "backslash_host = fixed_host [''x = 1'', [CHR 0x5C], []] backslash_tokens"

text \<open>Six empty lines, then a statement on the lines 7 to 9.\<close>

definition late_tokens :: "token list" where
  "late_tokens =
     [(NL, LF, (1, 0)), (NL, LF, (2, 0)), (NL, LF, (3, 0)), (NL, LF, (4, 0)), (NL, LF, (5, 0)),
      (NL, LF, (6, 0)),
      (NAME, ''x'', (7, 0)), (OP, ''='', (7, 2)), (OP, ''('', (7, 4)), (NUMBER, ''1'', (7, 5)),
      (OP, '','', (7, 6)), (NL, LF, (7, 7)),
      (NUMBER, ''2'', (8, 1)), (OP, '','', (8, 2)), (NL, LF, (8, 3)),
      (NUMBER, ''3'', (9, 1)), (OP, '')'', (9, 2)), (NEWLINE, LF, (9, 3)),
      (ENDMARKER, [], (10, 0))]"

definition late_host :: "unit host" where
  "late_host = fixed_host [[], [], [], [], [], [], ''x = (1,'', '' 2,'', '' 3)''] late_tokens"

text \<open>Eight empty lines, then a statement on the lines 9 to 11.\<close>

definition wide_tokens :: "token list" where
  "wide_tokens =
     [(NL, LF, (1, 0)), (NL, LF, (2, 0)), (NL, LF, (3, 0)), (NL, LF, (4, 0)), (NL, LF, (5, 0)),
      (NL, LF, (6, 0)), (NL, LF, (7, 0)), (NL, LF, (8, 0)),
      (NAME, ''x'', (9, 0)), (OP, ''='', (9, 2)), (OP, ''('', (9, 4)), (NUMBER, ''1'', (9, 5)),
      (OP, '','', (9, 6)), (NL, LF, (9, 7)),
      (NUMBER, ''2'', (10, 1)), (OP, '','', (10, 2)), (NL, LF, (10, 3)),
      (NUMBER, ''3'', (11, 1)), (OP, '')'', (11, 2)), (NEWLINE, LF, (11, 3)),
      (ENDMARKER, [], (12, 0))]"

definition wide_host :: "unit host" where
  "wide_host =
     fixed_host [[], [], [], [], [], [], [], [], ''x = (1,'', '' 2,'', '' 3)''] wide_tokens"

text \<open>A block indented by four spaces, and the same block indented by two.\<close>

definition indent4_tokens :: "token list" where
  "indent4_tokens =
     [(NAME, ''if'', (1, 0)), (NAME, ''x'', (1, 3)), (OP, '':'', (1, 4)), (NEWLINE, LF, (1, 5)),
      (INDENT, ''    '', (2, 0)), (NAME, ''y'', (2, 4)), (OP, ''='', (2, 6)),
      (NUMBER, ''1'', (2, 8)), (NEWLINE, LF, (2, 9)),
      (DEDENT, [], (3, 0)), (ENDMARKER, [], (3, 0))]"

definition indent4_host :: "unit host" where
  "indent4_host = fixed_host [''if x:'', ''    y = 1''] indent4_tokens"

definition indent2_tokens :: "token list" where
  "indent2_tokens =
     [(NAME, ''if'', (1, 0)), (NAME, ''x'', (1, 3)), (OP, '':'', (1, 4)), (NEWLINE, LF, (1, 5)),
      (INDENT, ''  '', (2, 0)), (NAME, ''y'', (2, 2)), (OP, ''='', (2, 4)),
      (NUMBER, ''1'', (2, 6)), (NEWLINE, LF, (2, 7)),
      (DEDENT, [], (3, 0)), (ENDMARKER, [], (3, 0))]"

definition indent2_host :: "unit host" where
  "indent2_host = fixed_host [''if x:'', ''  y = 1''] indent2_tokens"

text \<open>The files that the constructor builds from these hosts.\<close>

definition assign_file :: "unit PythonFile" where
  "assign_file =
     \<lparr> blob = ''x = 1'' @ LF, tree = (), lines = [None, Some ''x = 1''], filename = ''a.py'',
       logical_lines = index_of_lines [(1, 2, 0)] \<rparr>"

definition crlf_file :: "unit PythonFile" where
  "crlf_file =
     \<lparr> blob = ''x = 1'' @ CRLF, tree = (), lines = [None, Some ''x = 1''], filename = ''a.py'',
       logical_lines = index_of_lines [(1, 3, 0)] \<rparr>"

definition paren_file :: "unit PythonFile" where
  "paren_file =
     \<lparr> blob = ''x = (1,'' @ LF @ '' 2)'' @ LF, tree = (),
       lines = [None, Some ''x = (1,'', Some '' 2)''], filename = ''a.py'',
       logical_lines = index_of_lines [(1, 3, 0)] \<rparr>"

definition pair_file :: "unit PythonFile" where
  "pair_file =
     \<lparr> blob = ''x = (1,'' @ LF @ '' 2)'' @ LF @ ''y = 3'' @ LF, tree = (),
       lines = [None, Some ''x = (1,'', Some '' 2)'', Some ''y = 3''], filename = ''a.py'',
       logical_lines = index_of_lines [(1, 3, 0), (3, 4, 0)] \<rparr>"

definition late_file :: "unit PythonFile" where
  "late_file =
     \<lparr> blob = LF @ LF @ LF @ LF @ LF @ LF @ ''x = (1,'' @ LF @ '' 2,'' @ LF @ '' 3)'' @ LF,
       tree = (),
       lines = [None, Some [], Some [], Some [], Some [], Some [], Some [],
                Some ''x = (1,'', Some '' 2,'', Some '' 3)''],
       filename = ''a.py'',
       logical_lines = index_of_lines [(7, 10, 0)] \<rparr>"

definition indent4_file :: "unit PythonFile" where
  "indent4_file =
     \<lparr> blob = ''if x:'' @ LF @ ''    y = 1'' @ LF, tree = (),
       lines = [None, Some ''if x:'', Some ''    y = 1''], filename = ''a.py'',
       logical_lines = index_of_lines [(1, 2, 0), (2, 3, 4)] \<rparr>"

definition indent2_file :: "unit PythonFile" where
  "indent2_file =
     \<lparr> blob = ''if x:'' @ LF @ ''  y = 1'' @ LF, tree = (),
       lines = [None, Some ''if x:'', Some ''  y = 1''], filename = ''a.py'',
       logical_lines = index_of_lines [(1, 2, 0), (2, 3, 2)] \<rparr>"

definition wide_file :: "unit PythonFile" where
  "wide_file =
     \<lparr> blob = LF @ LF @ LF @ LF @ LF @ LF @ LF @ LF @ ''x = (1,'' @ LF @ '' 2,'' @ LF
              @ '' 3)'' @ LF,
       tree = (),
       lines = [None, Some [], Some [], Some [], Some [], Some [], Some [], Some [], Some [],
                Some ''x = (1,'', Some '' 2,'', Some '' 3)''],
       filename = ''a.py'',
       logical_lines = index_of_lines [(9, 12, 0)] \<rparr>"

section \<open>The logical-line index\<close>

lemma index_of_lines_snoc:
  "index_of_lines (found @ [(s, e, i)]) = (index_of_lines found)(s \<mapsto> (s, e, i))"
  by (simp add: index_of_lines_def fun_eq_iff)

lemma index_of_lines_last:
  "index_of_lines found n =
     (if filter (\<lambda>t. fst t = n) found = [] then None
      else Some (last (filter (\<lambda>t. fst t = n) found)))"
proof (induction found rule: rev_induct)
  case Nil
  show ?case by (simp add: index_of_lines_def)
next
  case (snoc x xs)
  obtain s e i where x: "x = (s, e, i)" by (cases x) auto
  show ?case
    using snoc by (simp add: x index_of_lines_snoc)
qed

lemma index_of_lines_key:
  "index_of_lines found n = Some (s, e, i) \<Longrightarrow> s = n \<and> (s, e, i) \<in> set found"
proof -
  assume a: "index_of_lines found n = Some (s, e, i)"
  let ?ts = "filter (\<lambda>t. fst t = n) found"
  from a have ne: "?ts \<noteq> []" and l: "last ?ts = (s, e, i)"
    by (auto simp: index_of_lines_last split: if_splits)
  from ne have "last ?ts \<in> set ?ts" by (rule last_in_set)
  with l show ?thesis by auto
qed

lemma PythonFile_init_fields:
  assumes "PythonFile_init h b f = Inr pf"
  shows "blob pf = b" and "filename pf = f"
    and "lines pf = None # map Some (splitlines h b)"
    and "logical_lines pf = index_of_lines (fst (iter_logical_lines h b))"
    and "snd (iter_logical_lines h b) = None"
  using assms
  by (auto simp: PythonFile_init_def split: sum.splits prod.splits option.splits)

lemma fixed_host_init:
  "PythonFile_init (fixed_host ls toks) b f =
     (case logical_lines_loop [] None toks of
        (found, Some e) \<Rightarrow> Inl e
      | (found, None) \<Rightarrow>
          Inr \<lparr> blob = b, tree = (), lines = None # map Some ls, filename = f,
                logical_lines = index_of_lines found \<rparr>)"
  by (simp add: PythonFile_init_def fixed_host_def iter_logical_lines_def iter_tokens_def
      split: prod.splits option.splits)

section \<open>The example inputs, evaluated\<close>

lemmas eval_defs = SKIP_TOKENS_def translate_logical_line_def LF_def CRLF_def isspace_def
      whitespace_def trim_back.simps

lemma assign_init: "PythonFile_init assign_host (''x = 1'' @ LF) ''a.py'' = Inr assign_file"
  by (simp add: assign_host_def fixed_host_init assign_tokens_def assign_file_def eval_defs)

lemma crlf_init: "PythonFile_init crlf_host (''x = 1'' @ CRLF) ''a.py'' = Inr crlf_file"
  by (simp add: crlf_host_def fixed_host_init crlf_tokens_def crlf_file_def eval_defs)

lemma paren_init:
  "PythonFile_init paren_host (''x = (1,'' @ LF @ '' 2)'' @ LF) ''a.py'' = Inr paren_file"
  by (simp add: paren_host_def fixed_host_init paren_tokens_def paren_file_def eval_defs)

lemma late_init:
  "PythonFile_init late_host
     (LF @ LF @ LF @ LF @ LF @ LF @ ''x = (1,'' @ LF @ '' 2,'' @ LF @ '' 3)'' @ LF) ''a.py'' =
   Inr late_file"
  by (simp add: late_host_def fixed_host_init late_tokens_def late_file_def eval_defs)

lemma indent4_init:
  "PythonFile_init indent4_host (''if x:'' @ LF @ ''    y = 1'' @ LF) ''a.py'' = Inr indent4_file"
  by (simp add: indent4_host_def fixed_host_init indent4_tokens_def indent4_file_def eval_defs eval_nat_numeral)

lemma indent2_init:
  "PythonFile_init indent2_host (''if x:'' @ LF @ ''  y = 1'' @ LF) ''a.py'' = Inr indent2_file"
  by (simp add: indent2_host_def fixed_host_init indent2_tokens_def indent2_file_def eval_defs eval_nat_numeral)

lemma wide_init:
  "PythonFile_init wide_host
     (LF @ LF @ LF @ LF @ LF @ LF @ LF @ LF @ ''x = (1,'' @ LF @ '' 2,'' @ LF @ '' 3)'' @ LF)
     ''a.py'' = Inr wide_file"
  by (simp add: wide_host_def fixed_host_init wide_tokens_def wide_file_def eval_defs)

lemma late_ranges:
  "line_range late_file 7 = Inr (7, 10)" "line_range late_file 8 = Inr (8, 9)"
  by (simp_all add: line_range_def late_file_def index_of_lines_def)

lemma wide_ranges:
  "line_range wide_file 5 = Inr (5, 6)" "line_range wide_file 9 = Inr (9, 12)"
  "line_range wide_file 10 = Inr (10, 11)" "line_range wide_file 12 = Inl IndexError"
  by (simp_all add: line_range_def wide_file_def index_of_lines_def)

section \<open>Properties\<close>

text \<open>
  C2: \<^verbatim>\<open>line_range(n)\<close> raises the out-of-range error exactly when \<open>n \<le> 0\<close> or \<open>n\<close> is
  beyond the line count of the file. For a line number in range it returns the span of the
  logical line that the index holds for the start \<open>n\<close> (the last one that the builder found
  with that start), and the single-line span \<open>(n, n + 1)\<close> when no logical line starts at
  \<open>n\<close>. An argument out of range is never mapped to a span.
\<close>

theorem line_range_spec:
  assumes "PythonFile_init h b f = Inr pf"
  shows "(line_range pf n = Inl IndexError) = (n \<le> 0 \<or> line_count pf < n)
       \<and> line_count pf = int (length (splitlines h b))
       \<and> (0 < n \<and> n \<le> line_count pf \<longrightarrow>
            line_range pf n =
              Inr (case filter (\<lambda>t. fst t = n) (fst (iter_logical_lines h b)) of
                     [] \<Rightarrow> (n, n + 1)
                   | ts \<Rightarrow> (fst (last ts), fst (snd (last ts)))))"
  using PythonFile_init_fields [OF assms]
  by (auto simp: line_range_def line_count_def index_of_lines_last list.case_eq_if
      split: option.splits if_splits prod.splits)

theorem line_range_spec_witness:
  "PythonFile_init paren_host (''x = (1,'' @ LF @ '' 2)'' @ LF) ''a.py'' = Inr paren_file
   \<and> line_count paren_file = 2
   \<and> line_range paren_file 0 = Inl IndexError
   \<and> line_range paren_file 1 = Inr (1, 3)
   \<and> line_range paren_file 2 = Inr (2, 3)
   \<and> line_range paren_file 3 = Inl IndexError"
  using line_range_spec [OF paren_init, of 0] line_range_spec [OF paren_init, of 1]
    line_range_spec [OF paren_init, of 2] line_range_spec [OF paren_init, of 3] paren_init
  by (simp add: paren_host_def fixed_host_def iter_logical_lines_def iter_tokens_def
      paren_tokens_def eval_defs)

text \<open>
  C5 claims that constructing a \<^verbatim>\<open>Nit\<close> raises the invalid-severity error (\<open>ValueError\<close>)
  for every severity other than \<open>COMMENT\<close>, \<open>WARNING\<close> and \<open>ERROR\<close>, and that for these three it
  succeeds and stores the severity, the file, the message and the optional anchor. The
  second half holds. For any other severity the constructor raises \<open>TypeError\<close>: the
  message of the \<open>ValueError\<close> joins the integer keys of \<open>SEVERITY\<close>, and the join raises
  before the \<open>ValueError\<close> exists.
\<close>

theorem Nit_init_raises_TypeError:
  "Nit_init severity' pf msg ln =
     (if severity' \<in> {Nit_COMMENT, Nit_WARNING, Nit_ERROR}
      then Inr \<lparr> python_file = pf, nit_severity = severity', nit_message = msg,
                 nit_line_number = ln \<rparr>
      else Inl TypeError)"
  by (auto simp: Nit_init_def SEVERITY_def SEVERITY_keys_def)

theorem Nit_init_raises_TypeError_witness:
  "Nit_init Nit_ERROR assign_file ''bad'' (Some 1) =
     Inr \<lparr> python_file = assign_file, nit_severity = 2, nit_message = ''bad'',
           nit_line_number = Some 1 \<rparr>
   \<and> Nit_init 3 assign_file ''bad'' (Some 1) = Inl TypeError
   \<and> Nit_init (- 1) assign_file ''bad'' None = Inl TypeError"
  using Nit_init_raises_TypeError [of Nit_ERROR assign_file "''bad''" "Some 1"]
    Nit_init_raises_TypeError [of 3 assign_file "''bad''" "Some 1"]
    Nit_init_raises_TypeError [of "- 1" assign_file "''bad''" None]
  by (simp add: Nit_COMMENT_def Nit_WARNING_def Nit_ERROR_def)

lemma tokens_object_result:
  "tokens_object pf st =
     (length (generators st),
      \<lparr> streams = streams st @ [\<lparr> buffer = blob pf, position = 0 \<rparr>],
        generators = generators st @ [(length (streams st), False)] \<rparr>)"
  by (simp add: tokens_object_def iter_tokens_object_def StringIO_def generator_object_def)

text \<open>
  Consuming a generator that has not ended, on a stream that nothing has read from: it
  yields the tokens of the whole buffer.
\<close>

lemma fold_tokens_fresh:
  assumes "g < length (generators st)" and "generators st ! g = (source, False)"
    and "source < length (streams st)" and "streams st ! source = \<lparr> buffer = content, position = 0 \<rparr>"
  shows "fold_tokens h g st =
           (generate_tokens h content,
            st\<lparr> streams := (streams st)[source :=
                    \<lparr> buffer = content, position = min (chars_read h content) (length content) \<rparr>],
                generators := (generators st)[g := (source, True)] \<rparr>)"
  using assms by (simp add: fold_tokens_def Let_def)

lemma fold_tokens_ended:
  assumes "g < length (generators st)" and "generators st ! g = (source, True)"
  shows "fold_tokens h g st = (([], None), st)"
  using assms by (simp add: fold_tokens_def)

text \<open>
  The pure \<open>tokens h pf\<close> is what consuming a new object of the property yields.
\<close>

lemma fold_tokens_object:
  assumes "tokens_object pf st = (g, st')"
  shows "fst (fold_tokens h g st') = tokens h pf"
proof -
  from assms have g: "g = length (generators st)"
    and st': "st' = \<lparr> streams = streams st @ [\<lparr> buffer = blob pf, position = 0 \<rparr>],
                      generators = generators st @ [(length (streams st), False)] \<rparr>"
    by (simp_all add: tokens_object_result)
  have "fold_tokens h g st' =
          (generate_tokens h (blob pf),
           st'\<lparr> streams := (streams st')[length (streams st) :=
                    \<lparr> buffer = blob pf,
                      position = min (chars_read h (blob pf)) (length (blob pf)) \<rparr>],
               generators := (generators st')[g := (length (streams st), True)] \<rparr>)"
    by (rule fold_tokens_fresh) (simp_all add: g st')
  then show ?thesis
    by (simp add: tokens_def iter_tokens_def)
qed

text \<open>
  By contrast, of two generators that read one stream the second one yields the tokens of
  the empty text when the first one has read the whole stream: it
  finds the stream where the first one left it.
\<close>

lemma shared_stream_second_fold:
  assumes "chars_read h content = length content"
  shows "fold_tokens h 1
           (snd (fold_tokens h 0
              \<lparr> streams = [\<lparr> buffer = content, position = 0 \<rparr>],
                generators = [(0, False), (0, False)] \<rparr>)) =
         (generate_tokens h [],
          \<lparr> streams = [\<lparr> buffer = content, position = length content \<rparr>],
            generators = [(0, True), (0, True)] \<rparr>)"
  using assms by (simp add: fold_tokens_def Let_def)

text \<open>
  C9: two accesses of \<^verbatim>\<open>tokens\<close> on the same file give two generators that, consumed in
  either order, yield the same token sequence, the tokens of the text the file was
  constructed from; the same holds when the first generator is consumed before the second
  access. Each access makes a stream of its own over the stored text, so no generator
  moves the read position of the other. (A generator consumed a second time yields
  nothing: it is the access that starts afresh.)
\<close>

theorem tokens_idempotent:
  assumes init: "PythonFile_init h b f = Inr pf"
    and first: "tokens_object pf st = (g1, st1)"
    and second: "tokens_object pf st1 = (g2, st2)"
  shows "fst (fold_tokens h g1 st2) = generate_tokens h b
       \<and> fst (fold_tokens h g2 (snd (fold_tokens h g1 st2))) = generate_tokens h b
       \<and> fst (fold_tokens h g2 st2) = generate_tokens h b
       \<and> fst (fold_tokens h g1 (snd (fold_tokens h g2 st2))) = generate_tokens h b
       \<and> fst (fold_tokens h g1 st1) = generate_tokens h b
       \<and> fst (fold_tokens h (fst (tokens_object pf (snd (fold_tokens h g1 st1))))
                (snd (tokens_object pf (snd (fold_tokens h g1 st1))))) = generate_tokens h b
       \<and> fst (fold_tokens h g1 (snd (fold_tokens h g1 st2))) = ([], None)"
proof -
  have b: "blob pf = b"
    using PythonFile_init_fields(1) [OF init] .
  let ?n = "length (streams st)" and ?m = "length (generators st)"
  let ?fresh = "\<lparr> buffer = b, position = 0 \<rparr>"
  let ?read = "\<lparr> buffer = b, position = min (chars_read h b) (length b) \<rparr>"
  from first have g1: "g1 = ?m"
    and st1: "st1 = \<lparr> streams = streams st @ [?fresh], generators = generators st @ [(?n, False)] \<rparr>"
    by (simp_all add: tokens_object_result b)
  from second have g2: "g2 = Suc ?m"
    and st2: "st2 = \<lparr> streams = streams st @ [?fresh, ?fresh],
                      generators = generators st @ [(?n, False), (Suc ?n, False)] \<rparr>"
    by (simp_all add: tokens_object_result b st1)
  have f1: "fold_tokens h g1 st2 =
              (generate_tokens h b,
               \<lparr> streams = streams st @ [?read, ?fresh],
                 generators = generators st @ [(?n, True), (Suc ?n, False)] \<rparr>)"
    by (subst fold_tokens_fresh [where source = "?n" and content = b])
      (simp_all add: g1 st2 nth_append list_update_append)
  have f2: "fold_tokens h g2 st2 =
              (generate_tokens h b,
               \<lparr> streams = streams st @ [?fresh, ?read],
                 generators = generators st @ [(?n, False), (Suc ?n, True)] \<rparr>)"
    by (subst fold_tokens_fresh [where source = "Suc ?n" and content = b])
      (simp_all add: g2 st2 nth_append list_update_append)
  have f12: "fst (fold_tokens h g2 (snd (fold_tokens h g1 st2))) = generate_tokens h b"
    unfolding f1 snd_conv
    by (subst fold_tokens_fresh [where source = "Suc ?n" and content = b])
      (simp_all add: g2 nth_append)
  have f21: "fst (fold_tokens h g1 (snd (fold_tokens h g2 st2))) = generate_tokens h b"
    unfolding f2 snd_conv
    by (subst fold_tokens_fresh [where source = "?n" and content = b])
      (simp_all add: g1 nth_append)
  have s1: "fold_tokens h g1 st1 =
              (generate_tokens h b,
               \<lparr> streams = streams st @ [?read], generators = generators st @ [(?n, True)] \<rparr>)"
    by (subst fold_tokens_fresh [where source = "?n" and content = b])
      (simp_all add: g1 st1 nth_append list_update_append)
  have s2: "fst (fold_tokens h (fst (tokens_object pf (snd (fold_tokens h g1 st1))))
                (snd (tokens_object pf (snd (fold_tokens h g1 st1))))) = generate_tokens h b"
    using fold_tokens_object [of pf "snd (fold_tokens h g1 st1)"
        "fst (tokens_object pf (snd (fold_tokens h g1 st1)))"
        "snd (tokens_object pf (snd (fold_tokens h g1 st1)))" h]
    by (simp add: tokens_def iter_tokens_def b)
  have again: "fst (fold_tokens h g1 (snd (fold_tokens h g1 st2))) = ([], None)"
    unfolding f1 snd_conv
    by (subst fold_tokens_ended [where source = "?n"]) (simp_all add: g1 nth_append)
  show ?thesis
    using f1 f2 f12 f21 s1 s2 again by simp
qed

theorem tokens_idempotent_witness:
  "PythonFile_init assign_host (''x = 1'' @ LF) ''a.py'' = Inr assign_file
   \<and> tokens_object assign_file \<lparr> streams = [], generators = [] \<rparr> =
       (0, \<lparr> streams = [\<lparr> buffer = ''x = 1'' @ LF, position = 0 \<rparr>],
             generators = [(0, False)] \<rparr>)
   \<and> tokens_object assign_file
        \<lparr> streams = [\<lparr> buffer = ''x = 1'' @ LF, position = 0 \<rparr>], generators = [(0, False)] \<rparr> =
       (1, \<lparr> streams = [\<lparr> buffer = ''x = 1'' @ LF, position = 0 \<rparr>,
                        \<lparr> buffer = ''x = 1'' @ LF, position = 0 \<rparr>],
             generators = [(0, False), (1, False)] \<rparr>)
   \<and> fst (fold_tokens assign_host 0
        \<lparr> streams = [\<lparr> buffer = ''x = 1'' @ LF, position = 0 \<rparr>,
                     \<lparr> buffer = ''x = 1'' @ LF, position = 0 \<rparr>],
          generators = [(0, False), (1, False)] \<rparr>) = (assign_tokens, None)
   \<and> fst (fold_tokens assign_host 1
        (snd (fold_tokens assign_host 0
           \<lparr> streams = [\<lparr> buffer = ''x = 1'' @ LF, position = 0 \<rparr>,
                        \<lparr> buffer = ''x = 1'' @ LF, position = 0 \<rparr>],
             generators = [(0, False), (1, False)] \<rparr>))) = (assign_tokens, None)"
proof -
  let ?st0 = "\<lparr> streams = [], generators = [] \<rparr>"
  let ?st1 = "\<lparr> streams = [\<lparr> buffer = ''x = 1'' @ LF, position = 0 \<rparr>],
                generators = [(0, False)] \<rparr>"
  let ?st2 = "\<lparr> streams = [\<lparr> buffer = ''x = 1'' @ LF, position = 0 \<rparr>,
                           \<lparr> buffer = ''x = 1'' @ LF, position = 0 \<rparr>],
                generators = [(0, False), (1, False)] \<rparr>"
  have a1: "tokens_object assign_file ?st0 = (0, ?st1)"
    by (simp add: tokens_object_result assign_file_def)
  have a2: "tokens_object assign_file ?st1 = (1, ?st2)"
    by (simp add: tokens_object_result assign_file_def)
  have gen: "generate_tokens assign_host (''x = 1'' @ LF) = (assign_tokens, None)"
    by (simp add: assign_host_def fixed_host_def)
  show ?thesis
    using tokens_idempotent [OF assign_init a1 a2] assign_init a1 a2 gen
    by simp
qed

text \<open>
  C10: for a line number \<open>n\<close> in range, \<^verbatim>\<open>line_range(n)\<close> returns a span that starts at
  \<open>n\<close>: every key of the logical-line index is the start of the triple stored under it,
  and the fallback span is \<open>(n, n + 1)\<close>.
\<close>

theorem line_range_start:
  assumes "PythonFile_init h b f = Inr pf"
  shows "(0 < n \<and> n \<le> line_count pf \<longrightarrow> (\<exists>stop. line_range pf n = Inr (n, stop)))
       \<and> (\<forall>start stop. line_range pf n = Inr (start, stop) \<longrightarrow> start = n)
       \<and> (\<forall>start stop indent. logical_lines pf n = Some (start, stop, indent) \<longrightarrow> start = n)"
  using PythonFile_init_fields(4) [OF assms]
  by (auto simp: line_range_def line_count_def split: option.splits if_splits dest: index_of_lines_key)

theorem line_range_start_witness:
  "PythonFile_init late_host
     (LF @ LF @ LF @ LF @ LF @ LF @ ''x = (1,'' @ LF @ '' 2,'' @ LF @ '' 3)'' @ LF) ''a.py'' =
   Inr late_file
   \<and> 0 < (7::int) \<and> 7 \<le> line_count late_file
   \<and> (\<exists>stop. line_range late_file 7 = Inr (7, stop))
   \<and> logical_lines late_file 7 = Some (7, 10, 0)"
  using line_range_start [OF late_init, of 7] late_init
  by (simp add: late_file_def line_count_def index_of_lines_def)

section \<open>Rendering of diagnostics\<close>

lemma digits_nonempty: "digits n \<noteq> []"
  by (subst digits.simps) simp

lemma fmt_03d_nonempty: "fmt_03d x \<noteq> []"
  by (simp add: fmt_03d_def zero_pad_def digits_nonempty)

lemma digits_small:
  "n < 10 \<Longrightarrow> digits n = [digit_char n]"
  "10 \<le> n \<Longrightarrow> digits n = digits (n div 10) @ [digit_char (n mod 10)]"
  by (subst digits.simps, simp)+

lemma fmt_03d_three_digits:
  assumes "0 \<le> k" and "k < 1000"
  shows "fmt_03d k =
           [digit_char (nat k div 100), digit_char (nat k div 10 mod 10), digit_char (nat k mod 10)]"
proof -
  define n where "n = nat k"
  have n: "n < 1000" and k: "\<not> k < 0"
    using assms by (simp_all add: n_def)
  have zero: "digit_char 0 = CHR ''0''"
    by (simp add: digit_char_def)
  consider "n < 10" | "10 \<le> n" "n < 100" | "100 \<le> n"
    by linarith
  then have "zero_pad 3 (digits n) =
               [digit_char (n div 100), digit_char (n div 10 mod 10), digit_char (n mod 10)]"
  proof cases
    case 1
    then show ?thesis
      by (simp add: digits_small zero_pad_def zero numeral_3_eq_3)
  next
    case 2
    then have "n div 10 < 10" by simp
    with 2 show ?thesis
      by (simp add: digits_small zero_pad_def zero)
  next
    case 3
    then have a: "10 \<le> n" and b: "10 \<le> n div 10" and c: "n div 10 div 10 < 10"
      using n by simp_all
    have d: "n div 10 div 10 = n div 100"
      by (simp add: div_mult2_eq)
    show ?thesis
      using a b c by (simp add: digits_small zero_pad_def d)
  qed
  then show ?thesis
    using k by (simp add: fmt_03d_def n_def)
qed

lemma fmt_examples:
  "fmt_03d 7 = ''007''" "fmt_03d 8 = ''008''" "fmt_03d 9 = ''009''"
  "fmt_d 4 = ''4''" "fmt_d 2 = ''2''"
  by (simp_all add: fmt_03d_def fmt_d_def zero_pad_def digits_small digit_char_def
      numeral_2_eq_2)

text \<open>
  C7: the rendered line number of a diagnostic is \<open>*\<close> when it has no anchor. When the
  anchor resolves to the span \<open>(start, stop)\<close>, it is \<open>start\<close> in the format \<^verbatim>\<open>%03d\<close> if the
  span is a single line, and \<open>start\<close>, a dash and \<open>stop - 1\<close>, both in the format \<^verbatim>\<open>%03d\<close>,
  if the span has more lines. The format \<^verbatim>\<open>%03d\<close> pads with zeros to three digits: a number
  below 1000 is rendered by its hundreds, tens and units digit, so line 7 is \<open>007\<close> and the
  lines 7 to 9 are \<open>007-009\<close>.
\<close>

theorem rendered_line_number_spec:
  "(nit_line_number nit = None \<longrightarrow> rendered_line_number nit = Inr ''*'')
   \<and> (\<forall>n start stop.
         nit_line_number nit = Some n \<and> line_range (python_file nit) n = Inr (start, stop) \<longrightarrow>
           rendered_line_number nit =
             Inr (if stop - start > 1 then fmt_03d start @ ''-'' @ fmt_03d (stop - 1)
                  else fmt_03d start))
   \<and> (\<forall>k. 0 \<le> k \<and> k < 1000 \<longrightarrow>
         fmt_03d k =
           [digit_char (nat k div 100), digit_char (nat k div 10 mod 10),
            digit_char (nat k mod 10)])"
proof (intro conjI allI impI)
  assume "nit_line_number nit = None"
  then show "rendered_line_number nit = Inr ''*''"
    by (simp add: rendered_line_number_def line_number_def)
next
  fix n start stop
  assume a: "nit_line_number nit = Some n \<and> line_range (python_file nit) n = Inr (start, stop)"
  then have "n \<noteq> 0"
    by (auto simp: line_range_def)
  with a show "rendered_line_number nit =
                 Inr (if stop - start > 1 then fmt_03d start @ ''-'' @ fmt_03d (stop - 1)
                      else fmt_03d start)"
    by (simp add: rendered_line_number_def line_number_def fmt_03d_nonempty)
next
  fix k :: int
  assume "0 \<le> k \<and> k < 1000"
  then show "fmt_03d k =
           [digit_char (nat k div 100), digit_char (nat k div 10 mod 10), digit_char (nat k mod 10)]"
    by (simp add: fmt_03d_three_digits)
qed

theorem rendered_line_number_spec_witness:
  "rendered_line_number \<lparr> python_file = late_file, nit_severity = 2, nit_message = ''m'',
                          nit_line_number = None \<rparr> = Inr ''*''
   \<and> line_range late_file 7 = Inr (7, 10)
   \<and> rendered_line_number \<lparr> python_file = late_file, nit_severity = 2, nit_message = ''m'',
                            nit_line_number = Some 7 \<rparr> = Inr ''007-009''
   \<and> line_range late_file 8 = Inr (8, 9)
   \<and> rendered_line_number \<lparr> python_file = late_file, nit_severity = 2, nit_message = ''m'',
                            nit_line_number = Some 8 \<rparr> = Inr ''008''
   \<and> fmt_03d 7 = ''007''"
proof -
  let ?nit = "\<lambda>ln. \<lparr> python_file = late_file, nit_severity = 2, nit_message = ''m'',
                      nit_line_number = ln \<rparr>"
  note spec = rendered_line_number_spec
  have a: "rendered_line_number (?nit None) = Inr ''*''"
    using spec [of "?nit None"] by simp
  have b: "rendered_line_number (?nit (Some 7)) = Inr ''007-009''"
    using spec [of "?nit (Some 7)", THEN conjunct2, THEN conjunct1, rule_format, of 7 7 10]
    by (simp add: late_ranges fmt_examples)
  have c: "rendered_line_number (?nit (Some 8)) = Inr ''008''"
    using spec [of "?nit (Some 8)", THEN conjunct2, THEN conjunct1, rule_format, of 8 8 9]
    by (simp add: late_ranges fmt_examples)
  have d: "fmt_03d 7 = ''007''"
    using spec [of "?nit None", THEN conjunct2, THEN conjunct2, rule_format, of 7]
    by (simp add: digit_char_def)
  show ?thesis
    using a b c d late_ranges by simp
qed

section \<open>The affected-line filter\<close>

lemma line_range_error: "line_range pf n = Inl e \<Longrightarrow> e = IndexError"
  by (auto simp: line_range_def split: if_splits option.splits)

lemma any_in_range:
  "list_ex (\<lambda>line. line \<in> set A) (py_range start stop) = list_ex (\<lambda>line. covers line (start, stop)) A"
  by (auto simp: list_ex_iff py_range_def covers_def)

text \<open>
  C6: iterating a plugin yields, in their order, exactly the diagnostics of \<^verbatim>\<open>nits()\<close> that
  pass the affected-line filter. A diagnostic with no anchor passes, and every diagnostic
  passes when no line filter was given to the constructor; otherwise a diagnostic passes
  if and only if a line of the affected list lies in the span that \<^verbatim>\<open>line_range\<close> returns for
  its anchor. (An anchor that \<^verbatim>\<open>line_range\<close> rejects ends the iteration with that error,
  after the diagnostics before it.)
\<close>

theorem plugin_iter_filter:
  "plugin_iter p ns =
     (filter (passes_filter p) (takeWhile (resolves p) ns),
      if list_all (resolves p) ns then None else Some IndexError)
   \<and> (list_all (resolves p) ns \<longrightarrow> plugin_iter p ns = (filter (passes_filter p) ns, None))"
proof -
  have main: "plugin_iter p ns =
     (filter (passes_filter p) (takeWhile (resolves p) ns),
      if list_all (resolves p) ns then None else Some IndexError)"
  proof (induction ns)
    case Nil
    show ?case by simp
  next
    case (Cons nit rest)
    show ?case
    proof (cases "nit_line_number nit = None \<or> affected_lines p = None")
      case True
      then have "resolves p nit" "passes_filter p nit"
        by (auto simp: resolves_def passes_filter_def)
      with True Cons show ?thesis by simp
    next
      case False
      show ?thesis
      proof (cases "line_range (plugin_file p) (the (nit_line_number nit))")
        case (Inl e)
        then have "e = IndexError" by (rule line_range_error)
        moreover have "\<not> resolves p nit"
          using False Inl by (simp add: resolves_def)
        ultimately show ?thesis
          using False Inl by auto
      next
        case (Inr span)
        obtain start stop where span: "span = (start, stop)" by (cases span) auto
        have r: "resolves p nit"
          using Inr by (simp add: resolves_def)
        have "passes_filter p nit =
                list_ex (\<lambda>line. line \<in> set (the (affected_lines p))) (py_range start stop)"
          using False Inr by (auto simp: passes_filter_def span any_in_range)
        with False Inr r Cons show ?thesis
          by (auto simp: span)
      qed
    qed
  qed
  show ?thesis
  proof (intro conjI impI)
    show "plugin_iter p ns =
       (filter (passes_filter p) (takeWhile (resolves p) ns),
        if list_all (resolves p) ns then None else Some IndexError)"
      by (rule main)
  next
    assume all: "list_all (resolves p) ns"
    then have "takeWhile (resolves p) ns = ns"
      by (simp add: list_all_iff)
    with main all show "plugin_iter p ns = (filter (passes_filter p) ns, None)"
      by simp
  qed
qed

theorem plugin_iter_filter_witness:
  "line_range wide_file 5 = Inr (5, 6) \<and> line_range wide_file 9 = Inr (9, 12)
   \<and> line_range wide_file 10 = Inr (10, 11)
   \<and> plugin_iter (CheckstylePlugin_init wide_file (Some [10]))
        [\<lparr> python_file = wide_file, nit_severity = 2, nit_message = ''a'', nit_line_number = Some 5 \<rparr>,
         \<lparr> python_file = wide_file, nit_severity = 2, nit_message = ''b'', nit_line_number = Some 10 \<rparr>,
         \<lparr> python_file = wide_file, nit_severity = 1, nit_message = ''c'', nit_line_number = Some 9 \<rparr>,
         \<lparr> python_file = wide_file, nit_severity = 1, nit_message = ''d'', nit_line_number = None \<rparr>]
      = ([\<lparr> python_file = wide_file, nit_severity = 2, nit_message = ''b'', nit_line_number = Some 10 \<rparr>,
          \<lparr> python_file = wide_file, nit_severity = 1, nit_message = ''c'', nit_line_number = Some 9 \<rparr>,
          \<lparr> python_file = wide_file, nit_severity = 1, nit_message = ''d'', nit_line_number = None \<rparr>],
         None)
   \<and> plugin_iter (CheckstylePlugin_init wide_file None)
        [\<lparr> python_file = wide_file, nit_severity = 2, nit_message = ''a'', nit_line_number = Some 5 \<rparr>]
      = ([\<lparr> python_file = wide_file, nit_severity = 2, nit_message = ''a'', nit_line_number = Some 5 \<rparr>],
         None)"
  using plugin_iter_filter [of "CheckstylePlugin_init wide_file (Some [10])"
        "[\<lparr> python_file = wide_file, nit_severity = 2, nit_message = ''a'', nit_line_number = Some 5 \<rparr>,
         \<lparr> python_file = wide_file, nit_severity = 2, nit_message = ''b'', nit_line_number = Some 10 \<rparr>,
         \<lparr> python_file = wide_file, nit_severity = 1, nit_message = ''c'', nit_line_number = Some 9 \<rparr>,
         \<lparr> python_file = wide_file, nit_severity = 1, nit_message = ''d'', nit_line_number = None \<rparr>]"]
    plugin_iter_filter [of "CheckstylePlugin_init wide_file None"
        "[\<lparr> python_file = wide_file, nit_severity = 2, nit_message = ''a'', nit_line_number = Some 5 \<rparr>]"]
  by (simp add: wide_ranges resolves_def passes_filter_def CheckstylePlugin_init_def covers_def)

section \<open>The Indentation plugin\<close>

lemma StyleError_ok:
  "StyleError pf msg ln =
     Inr \<lparr> python_file = pf, nit_severity = Nit_ERROR, nit_message = msg, nit_line_number = ln \<rparr>"
  by (simp add: StyleError_def Nit_init_def SEVERITY_def)

lemma indent_stack_Cons: "indent_stack indents (t # ts) = indent_stack (push_pop indents t) ts"
  by simp

lemma bad_indent_Suc:
  "bad_indent indents (t # ts) (Suc i) = bad_indent (push_pop indents t) ts i"
  by (simp add: bad_indent_def indent_delta_def indent_stack_Cons)

lemma indent_error_Suc:
  "indent_error pf indents (t # ts) (Suc i) = indent_error pf (push_pop indents t) ts i"
  by (simp add: indent_error_def indent_delta_def indent_stack_Cons)

lemma upt_Suc_shift: "[0..<Suc n] = 0 # map Suc [0..<n]"
  by (simp add: upt_conv_Cons map_Suc_upt del: upt_Suc)

lemma errors_Cons:
  "map (indent_error pf indents (t # ts)) (filter (bad_indent indents (t # ts)) [0..<length (t # ts)]) =
     (if bad_indent indents (t # ts) 0 then [indent_error pf indents (t # ts) 0] else []) @
     map (indent_error pf (push_pop indents t) ts)
       (filter (bad_indent (push_pop indents t) ts) [0..<length ts])"
proof -
  have "filter (bad_indent indents (t # ts)) (map Suc [0..<length ts]) =
          map Suc (filter (bad_indent (push_pop indents t) ts) [0..<length ts])"
    by (simp add: filter_map comp_def bad_indent_Suc)
  then show ?thesis
    by (simp add: upt_Suc_shift indent_error_Suc comp_def del: upt_Suc)
qed

lemma dedents_balanced_Cons:
  "dedents_balanced indents (t # ts) =
     ((fst t = DEDENT \<longrightarrow> indents \<noteq> []) \<and> dedents_balanced (push_pop indents t) ts)"
proof -
  have "[0..<length (t # ts)] = 0 # map Suc [0..<length ts]"
    using upt_Suc_shift [of "length ts"] by simp
  then show ?thesis
    unfolding dedents_balanced_def by (simp add: list.pred_map comp_def indent_stack_Cons)
qed

lemma nits_loop_indent:
  "nits_loop pf indents ((INDENT, tx, (r, c)) # rest) =
     ((if int (length tx) - top_width indents \<noteq> INDENT_LEVEL
       then [\<lparr> python_file = pf, nit_severity = Nit_ERROR,
               nit_message = ''Indentation of '' @ fmt_d (int (length tx) - top_width indents)
                       @ '' instead of '' @ fmt_d INDENT_LEVEL,
               nit_line_number = Some r \<rparr>]
       else []) @ fst (nits_loop pf (indents @ [tx]) rest),
      snd (nits_loop pf (indents @ [tx]) rest))"
  by (simp add: StyleError_ok top_width_def Let_def split: prod.splits)

lemma nits_loop_dedent:
  "indents \<noteq> [] \<Longrightarrow>
   nits_loop pf indents ((DEDENT, tx, st) # rest) = nits_loop pf (butlast indents) rest"
  by simp

lemma nits_loop_other:
  "ty \<noteq> INDENT \<Longrightarrow> ty \<noteq> DEDENT \<Longrightarrow>
   nits_loop pf indents ((ty, tx, st) # rest) = nits_loop pf indents rest"
  by simp

lemma nits_loop_spec:
  "dedents_balanced indents toks \<Longrightarrow>
   nits_loop pf indents toks =
     (map (indent_error pf indents toks) (filter (bad_indent indents toks) [0..<length toks]), None)"
proof (induction toks arbitrary: indents)
  case Nil
  show ?case by simp
next
  case (Cons t ts)
  obtain ty tx r c where t: "t = (ty, tx, (r, c))" by (cases t) auto
  from Cons.prems have bal: "dedents_balanced (push_pop indents t) ts"
    and pop: "ty = DEDENT \<longrightarrow> indents \<noteq> []"
    by (simp_all add: dedents_balanced_Cons t)
  note IH = Cons.IH [OF bal]
  have zero: "bad_indent indents (t # ts) 0 =
                (ty = INDENT \<and> int (length tx) - top_width indents \<noteq> INDENT_LEVEL)"
    and err0: "indent_error pf indents (t # ts) 0 =
      \<lparr> python_file = pf, nit_severity = Nit_ERROR,
        nit_message = ''Indentation of '' @ fmt_d (int (length tx) - top_width indents)
                       @ '' instead of '' @ fmt_d INDENT_LEVEL,
        nit_line_number = Some r \<rparr>"
    by (simp_all add: bad_indent_def indent_error_def indent_delta_def t)
  consider (indent) "ty = INDENT" | (dedent) "ty = DEDENT" | (other) "ty \<noteq> INDENT" "ty \<noteq> DEDENT"
    by blast
  then show ?case
  proof cases
    case indent
    have pp: "push_pop indents t = indents @ [tx]"
      using indent by (simp add: push_pop_def t)
    have "nits_loop pf indents (t # ts) =
            ((if bad_indent indents (t # ts) 0 then [indent_error pf indents (t # ts) 0] else [])
               @ fst (nits_loop pf (push_pop indents t) ts),
             snd (nits_loop pf (push_pop indents t) ts))"
      unfolding zero err0 pp using indent by (simp only: t nits_loop_indent simp_thms)
    then show ?thesis
      by (simp only: IH errors_Cons fst_conv snd_conv)
  next
    case dedent
    have pp: "push_pop indents t = butlast indents"
      using dedent by (simp add: push_pop_def t)
    have "nits_loop pf indents (t # ts) = nits_loop pf (push_pop indents t) ts"
      unfolding pp using dedent pop by (simp add: t)
    moreover have "\<not> bad_indent indents (t # ts) 0"
      using dedent by (simp add: zero)
    ultimately show ?thesis
      by (simp only: IH errors_Cons if_False append_Nil)
  next
    case other
    have pp: "push_pop indents t = indents"
      using other by (simp add: push_pop_def t)
    have "nits_loop pf indents (t # ts) = nits_loop pf (push_pop indents t) ts"
      unfolding pp using other by (simp add: t)
    moreover have "\<not> bad_indent indents (t # ts) 0"
      using other by (simp add: zero)
    ultimately show ?thesis
      by (simp only: IH errors_Cons if_False append_Nil)
  qed
qed

lemma indent4_balanced: "dedents_balanced [] indent4_tokens"
  by (simp add: dedents_balanced_def indent4_tokens_def upt_conv_Cons take_Cons' nth_Cons' push_pop_def)

lemma indent2_balanced: "dedents_balanced [] indent2_tokens"
  by (simp add: dedents_balanced_def indent2_tokens_def upt_conv_Cons take_Cons' nth_Cons' push_pop_def)

text \<open>
  C8: over the token stream of a file, \<^verbatim>\<open>Indentation.nits()\<close> yields one error for each
  \<open>INDENT\<close> token whose width differs from the width on top of the indent stack (0 for the
  empty stack) by another step than 2. The error is anchored at the row of that token and
  its message reports the step found and the step expected. Every \<open>INDENT\<close> pushes, every
  \<open>DEDENT\<close> pops, and a file whose indents all step by 2 gets no diagnostic.
\<close>

theorem indentation_nits:
  assumes "tokens h pf = (toks, err)" and "dedents_balanced [] toks"
  shows "nits h pf =
           (map (indent_error pf [] toks) (filter (bad_indent [] toks) [0..<length toks]), err)
       \<and> ((\<forall>i < length toks. fst (toks ! i) = INDENT \<longrightarrow> indent_delta [] toks i = INDENT_LEVEL)
            \<longrightarrow> nits h pf = ([], err))"
proof -
  have 1: "nits h pf =
           (map (indent_error pf [] toks) (filter (bad_indent [] toks) [0..<length toks]), err)"
    using assms(1) nits_loop_spec [OF assms(2), of pf] by (simp add: nits_def)
  have "filter (bad_indent [] toks) [0..<length toks] = []"
    if "\<forall>i < length toks. fst (toks ! i) = INDENT \<longrightarrow> indent_delta [] toks i = INDENT_LEVEL"
    using that by (auto simp: filter_empty_conv bad_indent_def)
  with 1 show ?thesis by simp
qed

theorem indentation_nits_witness:
  "tokens indent4_host indent4_file = (indent4_tokens, None)
   \<and> dedents_balanced [] indent4_tokens
   \<and> nits indent4_host indent4_file =
       ([\<lparr> python_file = indent4_file, nit_severity = Nit_ERROR,
           nit_message = ''Indentation of 4 instead of 2'', nit_line_number = Some 2 \<rparr>], None)
   \<and> tokens indent2_host indent2_file = (indent2_tokens, None)
   \<and> dedents_balanced [] indent2_tokens
   \<and> nits indent2_host indent2_file = ([], None)"
proof -
  have t4: "tokens indent4_host indent4_file = (indent4_tokens, None)"
    and t2: "tokens indent2_host indent2_file = (indent2_tokens, None)"
    by (simp_all add: tokens_def iter_tokens_def indent4_host_def indent2_host_def fixed_host_def)
  have f4: "filter (bad_indent [] indent4_tokens) [0..<length indent4_tokens] = [4]"
    by (simp add: indent4_tokens_def upt_conv_Cons bad_indent_def indent_delta_def take_Cons' push_pop_def
        nth_Cons' top_width_def INDENT_LEVEL_def)
  have e4: "indent_error indent4_file [] indent4_tokens 4 =
              \<lparr> python_file = indent4_file, nit_severity = Nit_ERROR,
                nit_message = ''Indentation of 4 instead of 2'', nit_line_number = Some 2 \<rparr>"
    by (simp add: indent4_tokens_def indent_error_def indent_delta_def take_Cons' push_pop_def
        nth_Cons' top_width_def INDENT_LEVEL_def fmt_examples)
  have "list_all (\<lambda>i. fst (indent2_tokens ! i) = INDENT \<longrightarrow>
                     indent_delta [] indent2_tokens i = INDENT_LEVEL) [0..<length indent2_tokens]"
    by (simp add: indent2_tokens_def indent_delta_def take_Cons' nth_Cons' push_pop_def top_width_def
        INDENT_LEVEL_def upt_conv_Cons)
  then have f2: "\<forall>i < length indent2_tokens.
              fst (indent2_tokens ! i) = INDENT \<longrightarrow> indent_delta [] indent2_tokens i = INDENT_LEVEL"
    by (simp add: list_all_iff)
  have n4: "nits indent4_host indent4_file =
       ([\<lparr> python_file = indent4_file, nit_severity = Nit_ERROR,
           nit_message = ''Indentation of 4 instead of 2'', nit_line_number = Some 2 \<rparr>], None)"
    using indentation_nits [OF t4 indent4_balanced] by (simp add: f4 e4)
  have n2: "nits indent2_host indent2_file = ([], None)"
    using indentation_nits [OF t2 indent2_balanced, THEN conjunct2] f2 by (rule mp)
  show ?thesis
    using n4 n2 t4 t2 indent4_balanced indent2_balanced by simp
qed

section \<open>The spans of the logical lines\<close>

text \<open>
  What \<^verbatim>\<open>translate_logical_line\<close> returns for contents of the shape: \<open>a\<close> newline texts,
  then texts that neither start nor end with a newline text, then \<open>b\<close> newline texts.
\<close>

lemma trim_front_replicate:
  "mid \<noteq> [] \<Longrightarrow> hd mid \<noteq> LF \<Longrightarrow> trim_front s (replicate a LF @ mid) = Inr (s + int a, mid)"
proof (induction a arbitrary: s)
  case 0
  then show ?case by (cases mid) auto
next
  case (Suc a)
  then show ?case by simp
qed

lemma trim_front_only_LF: "trim_front s (replicate a LF) = Inl IndexError"
  by (induction a arbitrary: s) auto

lemma trim_back_snoc_LF: "trim_back e (xs @ [LF]) = trim_back (e - 1) xs"
  by (simp add: trim_back.simps [of e "xs @ [LF]"])

lemma trim_back_replicate:
  "mid \<noteq> [] \<Longrightarrow> last mid \<noteq> LF \<Longrightarrow> trim_back e (mid @ replicate b LF) = Inr (e - int b, mid)"
proof (induction b arbitrary: e)
  case 0
  then show ?case by (simp add: trim_back.simps [of e mid])
next
  case (Suc b)
  have eq: "mid @ replicate (Suc b) LF = (mid @ replicate b LF) @ [LF]"
    by (simp add: replicate_append_same)
  show ?case
    unfolding eq trim_back_snoc_LF using Suc by simp
qed

lemma translate_shape:
  assumes "mid \<noteq> []" "hd mid \<noteq> LF" "last mid \<noteq> LF"
  shows "translate_logical_line s e (replicate a LF @ mid @ replicate b LF) =
           Inr (s + int a, e - int b + 1, if isspace (hd mid) then length (hd mid) else 0)"
proof -
  have 1: "trim_front s (replicate a LF @ (mid @ replicate b LF)) = Inr (s + int a, mid @ replicate b LF)"
    using assms by (intro trim_front_replicate) auto
  have 2: "trim_back e (mid @ replicate b LF) = Inr (e - int b, mid)"
    using assms(1,3) by (rule trim_back_replicate)
  obtain c cs where mid: "mid = c # cs"
    using assms(1) by (cases mid) auto
  show ?thesis
    using 1 2 by (simp add: translate_logical_line_def mid)
qed

lemma translate_only_LF:
  "translate_logical_line s e (replicate a LF) = Inl IndexError"
  by (simp add: translate_logical_line_def trim_front_only_LF)

text \<open>
  The invariant of the loop of \<^verbatim>\<open>iter_logical_lines\<close> on a token stream of text with plain
  newlines. \<open>nl\<close> and \<open>p\<close> describe the token before \<open>toks\<close>; inside a logical line, the
  non-empty texts collected so far are \<open>a\<close> newline texts followed by \<open>mid\<close>.
\<close>

lemma spans_ok_mono: "spans_ok lo' hi xs \<Longrightarrow> lo \<le> lo' \<Longrightarrow> spans_ok lo hi xs"
  by (cases xs) auto

lemma significant_Cons:
  "significant ((ty, tx, st) # toks) =
     (if ty \<in> SKIP_TOKENS then significant toks else (ty, tx, st) # significant toks)"
  by (simp add: significant_def)

lemma filter_nonempty_snoc:
  "filter (\<lambda>t. t \<noteq> []) (cs @ [tx]) = filter (\<lambda>t. t \<noteq> []) cs @ (if tx = [] then [] else [tx])"
  by simp

lemma LF_nonempty: "LF \<noteq> []" "[] \<noteq> LF"
  by (simp_all add: LF_def)

lemma loop_emit:
  assumes "ty \<notin> SKIP_TOKENS" and "ty = NEWLINE \<or> ty = ENDMARKER"
    and "translate_logical_line s (r + (if ty = NEWLINE then 1 else - 1))
           (filter (\<lambda>t. t \<noteq> []) (contents @ [tx])) = Inr line"
  shows "fst (logical_lines_loop contents (Some s) ((ty, tx, (r, c)) # toks)) =
           line # fst (logical_lines_loop [] None toks)"
  using assms by (simp split: prod.splits)

lemma loop_emit_fails:
  assumes "ty \<notin> SKIP_TOKENS" and "ty = NEWLINE \<or> ty = ENDMARKER"
    and "translate_logical_line s (r + (if ty = NEWLINE then 1 else - 1))
           (filter (\<lambda>t. t \<noteq> []) (contents @ [tx])) = Inl e"
  shows "logical_lines_loop contents (Some s) ((ty, tx, (r, c)) # toks) = ([], Some e)"
  using assms by simp

lemma loop_spans:
  assumes "list_all (token_ok N) (significant toks)" and "rows_ok nl p (significant toks)"
  shows "spans_ok (if nl then p + 1 else p) (N + 1) (fst (logical_lines_loop [] None toks))"
    and "\<And>contents s a mid.
           filter (\<lambda>t. t \<noteq> []) contents = replicate a LF @ mid \<Longrightarrow> LF \<notin> set mid \<Longrightarrow>
           s + int a \<le> (if nl then p + 1 else p) \<Longrightarrow> (nl \<longrightarrow> mid = []) \<Longrightarrow>
           spans_ok (s + int a) (N + 1) (fst (logical_lines_loop contents (Some s) toks))"
  using assms
proof (induction toks arbitrary: nl p)
  case Nil
  {
    case 1
    show ?case by simp
  next
    case 2
    show ?case by simp
  }
next
  case (Cons tok toks)
  obtain ty tx r c where tok: "tok = (ty, tx, (r, c))"
    by (cases tok) auto
  {
    case 1
    show ?case
    proof (cases "ty \<in> SKIP_TOKENS")
      case True
      then show ?thesis
        using Cons.IH(1) [of nl p] 1 by (simp add: tok significant_Cons)
    next
      case False
      have ok: "token_ok N (ty, tx, (r, c))" and all: "list_all (token_ok N) (significant toks)"
        and lo: "(if nl then p + 1 else p) \<le> r" and rows: "rows_ok (ty = NEWLINE) r (significant toks)"
        using 1 False by (auto simp: tok significant_Cons split: if_splits)
      define a :: nat where "a = (if tx = LF then 1 else 0)"
      define mid where "mid = (if tx = LF \<or> tx = [] then [] else [tx])"
      have shape: "filter (\<lambda>t. t \<noteq> []) [tx] = replicate a LF @ mid"
        by (auto simp: a_def mid_def LF_nonempty)
      have "spans_ok (r + int a) (N + 1) (fst (logical_lines_loop [tx] (Some r) toks))"
      proof (rule Cons.IH(2) [OF _ _ _ _ all rows])
        show "filter (\<lambda>t. t \<noteq> []) [tx] = replicate a LF @ mid" by (rule shape)
        show "LF \<notin> set mid" by (auto simp: mid_def)
        show "r + int a \<le> (if ty = NEWLINE then r + 1 else r)"
          using ok by (auto simp: a_def LF_nonempty split: if_splits)
        show "ty = NEWLINE \<longrightarrow> mid = []"
          using ok by (auto simp: mid_def LF_nonempty)
      qed
      then have "spans_ok (if nl then p + 1 else p) (N + 1) (fst (logical_lines_loop [tx] (Some r) toks))"
        by (rule spans_ok_mono) (use lo in simp)
      then show ?thesis
        using False by (simp add: tok)
    qed
  next
    case (2 contents s a mid)
    show ?case
    proof (cases "ty \<in> SKIP_TOKENS")
      case True
      then show ?thesis
        using Cons.IH(2) [of contents a mid s nl p] 2 by (simp add: tok significant_Cons)
    next
      case False
      have ok: "token_ok N (ty, tx, (r, c))" and all: "list_all (token_ok N) (significant toks)"
        and lo: "(if nl then p + 1 else p) \<le> r" and em: "ty = ENDMARKER \<longrightarrow> p < r"
        and rows: "rows_ok (ty = NEWLINE) r (significant toks)"
        using 2 False by (auto simp: tok significant_Cons split: if_splits)
      consider (nl) "ty = NEWLINE" | (em) "ty = ENDMARKER" | (other) "ty \<noteq> NEWLINE" "ty \<noteq> ENDMARKER"
        by blast
      then show ?thesis
      proof cases
        case other
        define mid' where "mid' = mid @ (if tx = [] then [] else [tx])"
        have "spans_ok (s + int a) (N + 1) (fst (logical_lines_loop (contents @ [tx]) (Some s) toks))"
        proof (rule Cons.IH(2) [OF _ _ _ _ all rows])
          show "filter (\<lambda>t. t \<noteq> []) (contents @ [tx]) = replicate a LF @ mid'"
            using 2(1) by (simp add: mid'_def)
          show "LF \<notin> set mid'"
            using 2(2) ok other by (auto simp: mid'_def)
          show "s + int a \<le> (if ty = NEWLINE then r + 1 else r)"
            using 2(3) lo other by simp
          show "ty = NEWLINE \<longrightarrow> mid' = []"
            using other by simp
        qed
        then show ?thesis
          using False other by (simp add: tok)
      next
        case nl
        have tx: "tx = LF" and rN: "r \<le> N"
          using ok nl by auto
        have is_end: "ty = NEWLINE \<or> ty = ENDMARKER"
          using nl by simp
        show ?thesis
        proof (cases "mid = []")
          case True
          have "filter (\<lambda>t. t \<noteq> []) (contents @ [tx]) = replicate (Suc a) LF"
            using 2(1) True by (simp add: tx LF_nonempty replicate_append_same)
          then have "translate_logical_line s (r + (if ty = NEWLINE then 1 else - 1))
                       (filter (\<lambda>t. t \<noteq> []) (contents @ [tx])) = Inl IndexError"
            by (simp only: translate_only_LF)
          then have "logical_lines_loop contents (Some s) (tok # toks) = ([], Some IndexError)"
            unfolding tok by (rule loop_emit_fails [OF False is_end])
          then show ?thesis by simp
        next
          case mid: False
          have shape: "filter (\<lambda>t. t \<noteq> []) (contents @ [tx]) = replicate a LF @ mid @ replicate 1 LF"
            using 2(1) by (simp add: tx LF_nonempty)
          have ends: "hd mid \<noteq> LF" "last mid \<noteq> LF"
            using 2(2) mid by (metis hd_in_set, metis last_in_set)
          have tr: "translate_logical_line s (r + 1) (filter (\<lambda>t. t \<noteq> []) (contents @ [tx])) =
                      Inr (s + int a, r + 1, if isspace (hd mid) then length (hd mid) else 0)"
            unfolding shape using translate_shape [OF mid ends, of s "r + 1" a 1] by simp
          have rest: "spans_ok (r + 1) (N + 1) (fst (logical_lines_loop [] None toks))"
            using Cons.IH(1) [OF all rows] nl by simp
          have "s + int a \<le> r"
            using 2(3,4) mid lo by (auto split: if_splits)
          moreover have "translate_logical_line s (r + (if ty = NEWLINE then 1 else - 1))
                       (filter (\<lambda>t. t \<noteq> []) (contents @ [tx])) =
                     Inr (s + int a, r + 1, if isspace (hd mid) then length (hd mid) else 0)"
            using tr nl by simp
          then have "fst (logical_lines_loop contents (Some s) (tok # toks)) =
                  (s + int a, r + 1, if isspace (hd mid) then length (hd mid) else 0)
                    # fst (logical_lines_loop [] None toks)"
            unfolding tok by (rule loop_emit [OF False is_end])
          ultimately show ?thesis
            using rest rN by simp
        qed
      next
        case em
        have tx: "tx = []" and rN: "r \<le> N + 1"
          using ok em by auto
        have is_end: "ty = NEWLINE \<or> ty = ENDMARKER"
          using em by simp
        show ?thesis
        proof (cases "mid = []")
          case True
          have "filter (\<lambda>t. t \<noteq> []) (contents @ [tx]) = replicate a LF"
            using 2(1) True by (simp add: tx)
          then have "translate_logical_line s (r + (if ty = NEWLINE then 1 else - 1))
                       (filter (\<lambda>t. t \<noteq> []) (contents @ [tx])) = Inl IndexError"
            by (simp only: translate_only_LF)
          then have "logical_lines_loop contents (Some s) (tok # toks) = ([], Some IndexError)"
            unfolding tok by (rule loop_emit_fails [OF False is_end])
          then show ?thesis by simp
        next
          case mid: False
          have shape: "filter (\<lambda>t. t \<noteq> []) (contents @ [tx]) = replicate a LF @ mid @ replicate 0 LF"
            using 2(1) by (simp add: tx)
          have ends: "hd mid \<noteq> LF" "last mid \<noteq> LF"
            using 2(2) mid by (metis hd_in_set, metis last_in_set)
          have tr: "translate_logical_line s (r - 1) (filter (\<lambda>t. t \<noteq> []) (contents @ [tx])) =
                      Inr (s + int a, r, if isspace (hd mid) then length (hd mid) else 0)"
            unfolding shape using translate_shape [OF mid ends, of s "r - 1" a 0] by simp
          have rest: "spans_ok r (N + 1) (fst (logical_lines_loop [] None toks))"
            using Cons.IH(1) [OF all rows] em by simp
          have "s + int a < r"
            using 2(3,4) mid lo em \<open>ty = ENDMARKER \<longrightarrow> p < r\<close> by (auto split: if_splits)
          moreover have "translate_logical_line s (r + (if ty = NEWLINE then 1 else - 1))
                       (filter (\<lambda>t. t \<noteq> []) (contents @ [tx])) =
                     Inr (s + int a, r, if isspace (hd mid) then length (hd mid) else 0)"
            using tr em by simp
          then have "fst (logical_lines_loop contents (Some s) (tok # toks)) =
                  (s + int a, r, if isspace (hd mid) then length (hd mid) else 0)
                    # fst (logical_lines_loop [] None toks)"
            unfolding tok by (rule loop_emit [OF False is_end])
          ultimately show ?thesis
            using rest rN by simp
        qed
      qed
    qed
  }
qed

lemma iter_logical_lines_fst:
  "fst (iter_logical_lines h b) = fst (logical_lines_loop [] None (fst (generate_tokens h b)))"
  by (simp add: iter_logical_lines_def iter_tokens_def split: prod.splits option.splits)

lemma spans_ok_bounds:
  "spans_ok lo hi xs \<Longrightarrow> x \<in> set xs \<Longrightarrow> lo \<le> fst x \<and> fst x < fst (snd x) \<and> fst (snd x) \<le> hi"
proof (induction xs arbitrary: lo)
  case Nil
  then show ?case by simp
next
  case (Cons y ys)
  obtain s e i where y: "y = (s, e, i)" by (cases y) auto
  show ?case
  proof (cases "x = y")
    case True
    with Cons.prems(1) show ?thesis by (simp add: y)
  next
    case False
    with Cons.prems have "x \<in> set ys" and "spans_ok e hi ys" and "lo \<le> e"
      by (auto simp: y)
    with Cons.IH [of e] show ?thesis by auto
  qed
qed

lemma spans_ok_sorted:
  "spans_ok lo hi xs \<Longrightarrow> sorted_wrt (\<lambda>x y. fst x < fst y \<and> fst (snd x) \<le> fst y) xs"
proof (induction xs arbitrary: lo)
  case Nil
  show ?case by simp
next
  case (Cons y ys)
  obtain s e i where y: "y = (s, e, i)" by (cases y) auto
  from Cons.prems have rest: "spans_ok e hi ys" and se: "s < e"
    by (simp_all add: y)
  have "\<forall>x \<in> set ys. s < fst x \<and> e \<le> fst x"
    using spans_ok_bounds [OF rest] se by fastforce
  with Cons.IH [OF rest] show ?case
    by (simp add: y)
qed

lemma sorted_wrt_pair:
  "sorted_wrt P xs \<Longrightarrow> x \<in> set xs \<Longrightarrow> y \<in> set xs \<Longrightarrow> x \<noteq> y \<Longrightarrow> P x y \<or> P y x"
  by (induction xs) auto

lemma recognized_spans_Cons:
  "recognized_spans ((s, e, i) # ys) = (s, e) # recognized_spans ys"
  by (simp add: recognized_spans_def)

lemma recognized_none_cover:
  "\<forall>x \<in> set ys. \<not> (fst x \<le> n \<and> n < fst (snd x)) \<Longrightarrow>
   filter (covers n) (recognized_spans ys) = []"
  by (auto simp: recognized_spans_def filter_empty_conv covers_def)

lemma covers_recognized:
  "spans_ok lo hi found \<Longrightarrow>
   length (filter (covers n) (recognized_spans found)) =
     (if \<exists>x \<in> set found. fst x \<le> n \<and> n < fst (snd x) then 1 else 0)"
proof (induction found arbitrary: lo)
  case Nil
  show ?case by (simp add: recognized_spans_def)
next
  case (Cons y ys)
  obtain s e i where y: "y = (s, e, i)" by (cases y) auto
  from Cons.prems have rest: "spans_ok e hi ys"
    by (simp add: y)
  note IH = Cons.IH [OF rest]
  show ?case
  proof (cases "covers n (s, e)")
    case True
    then have "n < e" by (simp add: covers_def)
    then have "\<forall>x \<in> set ys. \<not> (fst x \<le> n \<and> n < fst (snd x))"
      using spans_ok_bounds [OF rest] by fastforce
    then have "filter (covers n) (recognized_spans ys) = []"
      by (rule recognized_none_cover)
    moreover have "s \<le> n \<and> n < e"
      using True by (simp add: covers_def)
    ultimately show ?thesis
      using True by (auto simp: y recognized_spans_Cons)
  next
    case False
    then have "\<not> (s \<le> n \<and> n < e)" by (simp add: covers_def)
    with IH False show ?thesis
      by (simp add: y recognized_spans_Cons)
  qed
qed

lemma length_filter_eq:
  "distinct xs \<Longrightarrow> length (filter (\<lambda>m. m = n \<and> P m) xs) = (if n \<in> set xs \<and> P n then 1 else 0)"
  by (induction xs) auto

lemma covers_fallback:
  "length (filter (covers n) (fallback_spans pf)) =
     (if 1 \<le> n \<and> n \<le> line_count pf \<and> logical_lines pf n = None then 1 else 0)"
proof -
  have "filter (\<lambda>m. covers n (m, m + 1)) (filter (\<lambda>m. logical_lines pf m = None) [1..line_count pf]) =
          filter (\<lambda>m. m = n \<and> logical_lines pf m = None) [1..line_count pf]"
    unfolding filter_filter by (rule filter_cong [OF refl]) (auto simp: covers_def)
  then have "filter (covers n) (fallback_spans pf) =
          map (\<lambda>m. (m, m + 1))
            (filter (\<lambda>m. m = n \<and> logical_lines pf m = None) [1..line_count pf])"
    by (simp add: fallback_spans_def filter_map comp_def)
  then show ?thesis
    using length_filter_eq [of "[1..line_count pf]" n "\<lambda>m. logical_lines pf m = None"]
    by simp
qed

lemma continuation_line_iff:
  "continuation_line found n = (\<exists>x \<in> set found. fst x < n \<and> n < fst (snd x))"
  by (simp add: continuation_line_def list_ex_iff case_prod_beta)

lemma index_of_lines_None:
  "(index_of_lines found n = None) = (\<forall>x \<in> set found. fst x \<noteq> n)"
  by (auto simp: index_of_lines_last filter_empty_conv)

lemma paren_found:
  "fst (iter_logical_lines paren_host (''x = (1,'' @ LF @ '' 2)'' @ LF)) = [(1, 3, 0)]"
  by (simp add: paren_host_def fixed_host_def iter_logical_lines_def iter_tokens_def
      paren_tokens_def eval_defs)

lemma paren_covering:
  "covering_spans [(1, 3, 0)] paren_file 1 = [(1, 3)]"
  "covering_spans [(1, 3, 0)] paren_file 2 = [(1, 3), (2, 3)]"
  by (simp_all add: covering_spans_def recognized_spans_def fallback_spans_def covers_def
      paren_file_def line_count_def index_of_lines_def upto.simps)

lemma pair_init:
  "PythonFile_init pair_host (''x = (1,'' @ LF @ '' 2)'' @ LF @ ''y = 3'' @ LF) ''a.py'' =
     Inr pair_file"
  by (simp add: pair_host_def fixed_host_init pair_tokens_def pair_file_def eval_defs)

lemma pair_found:
  "fst (iter_logical_lines pair_host (''x = (1,'' @ LF @ '' 2)'' @ LF @ ''y = 3'' @ LF)) =
     [(1, 3, 0), (3, 4, 0)]"
  by (simp add: pair_host_def fixed_host_def iter_logical_lines_def iter_tokens_def
      pair_tokens_def eval_defs)

lemma pair_lf_tokenized:
  "lf_tokenized
     (int (length (splitlines pair_host (''x = (1,'' @ LF @ '' 2)'' @ LF @ ''y = 3'' @ LF))))
     (fst (generate_tokens pair_host (''x = (1,'' @ LF @ '' 2)'' @ LF @ ''y = 3'' @ LF)))"
  by (simp add: lf_tokenized_def significant_def pair_host_def fixed_host_def pair_tokens_def
      SKIP_TOKENS_def LF_def)

text \<open>
  A text can parse and tokenize and still have no file: on the text with the lone
  backslash the builder yields the span of line 1 and then raises \<open>IndexError\<close>, because the
  contents of the second logical line are a newline text only.
\<close>

lemma backslash_no_file:
  "lf_tokenized
     (int (length (splitlines backslash_host (''x = 1'' @ LF @ [CHR 0x5C] @ LF @ LF))))
     (fst (generate_tokens backslash_host (''x = 1'' @ LF @ [CHR 0x5C] @ LF @ LF)))"
  "iter_logical_lines backslash_host (''x = 1'' @ LF @ [CHR 0x5C] @ LF @ LF) =
     ([(1, 2, 0)], Some IndexError)"
  "PythonFile_init backslash_host (''x = 1'' @ LF @ [CHR 0x5C] @ LF @ LF) ''a.py'' =
     Inl IndexError"
  by (simp_all add: lf_tokenized_def significant_def backslash_host_def fixed_host_def
      backslash_tokens_def PythonFile_init_def iter_logical_lines_def iter_tokens_def eval_defs)

text \<open>
  C4, as amended: for a text whose token stream is that of plain newlines (\<open>lf_tokenized\<close>),
  the spans of the logical lines that the builder yields are in ascending order of their
  starts and do not overlap, and each one is a non-empty range of lines of the file.
  Whenever the constructor builds a file from the text (the text parses, tokenizes and the
  builder raises no error), every line of the file is covered by the logical-line spans
  together with the single-line fallback spans of the lines that are not a recognized
  start: once, except that a continuation line of a logical line is covered twice, by the
  span of its logical line and by its own fallback span.
\<close>

theorem logical_lines_cover:
  assumes wf: "lf_tokenized (int (length (splitlines h b))) (fst (generate_tokens h b))"
    and found: "found = fst (iter_logical_lines h b)"
  shows "sorted_wrt (\<lambda>x y. fst x < fst y \<and> fst (snd x) \<le> fst y) found
       \<and> (\<forall>x \<in> set found.
            1 \<le> fst x \<and> fst x < fst (snd x) \<and> fst (snd x) \<le> int (length (splitlines h b)) + 1)
       \<and> (\<forall>pf. PythonFile_init h b f = Inr pf \<longrightarrow>
            line_count pf = int (length (splitlines h b)) \<and>
            (\<forall>n. 1 \<le> n \<and> n \<le> line_count pf \<longrightarrow>
               length (covering_spans found pf n) = (if continuation_line found n then 2 else 1)))"
proof -
  let ?P = "\<lambda>x y :: int \<times> int \<times> nat. fst x < fst y \<and> fst (snd x) \<le> fst y"
  let ?N = "int (length (splitlines h b))"
  have ok: "spans_ok 1 (?N + 1) found"
    using loop_spans(1) [of ?N "fst (generate_tokens h b)" True 0] wf
    by (simp add: found iter_logical_lines_fst lf_tokenized_def)
  have sorted: "sorted_wrt ?P found"
    using ok by (rule spans_ok_sorted)
  have bounds: "\<forall>x \<in> set found. 1 \<le> fst x \<and> fst x < fst (snd x) \<and> fst (snd x) \<le> ?N + 1"
    using spans_ok_bounds [OF ok] by blast
  have built: "line_count pf = ?N \<and>
      (\<forall>n. 1 \<le> n \<and> n \<le> line_count pf \<longrightarrow>
         length (covering_spans found pf n) = (if continuation_line found n then 2 else 1))"
    if init: "PythonFile_init h b f = Inr pf" for pf
  proof -
    have idx: "logical_lines pf = index_of_lines found"
      using PythonFile_init_fields(4) [OF init] by (simp add: found)
    have lc: "line_count pf = ?N"
      using PythonFile_init_fields(3) [OF init] by (simp add: line_count_def)
    have count: "length (covering_spans found pf n) = (if continuation_line found n then 2 else 1)"
      if n: "1 \<le> n \<and> n \<le> line_count pf" for n
    proof (cases "\<exists>x \<in> set found. fst x = n")
      case True
      then obtain x where x: "x \<in> set found" "fst x = n" by blast
      then have cov: "\<exists>x \<in> set found. fst x \<le> n \<and> n < fst (snd x)"
        using bounds by force
      have "\<not> continuation_line found n"
      proof
        assume "continuation_line found n"
        then obtain y where y: "y \<in> set found" "fst y < n" "n < fst (snd y)"
          by (auto simp: continuation_line_iff)
        then have "x \<noteq> y" using x by auto
        from sorted_wrt_pair [OF sorted x(1) y(1) this] x(2) y(2,3) show False
          by auto
      qed
      moreover have "logical_lines pf n \<noteq> None"
        using True by (simp add: idx index_of_lines_None)
      ultimately show ?thesis
        using cov n by (simp add: covering_spans_def covers_recognized [OF ok] covers_fallback)
    next
      case False
      then have none: "logical_lines pf n = None"
        by (simp add: idx index_of_lines_None)
      have "(\<exists>x \<in> set found. fst x \<le> n \<and> n < fst (snd x)) = continuation_line found n"
        unfolding continuation_line_iff using False by (metis order.strict_iff_order)
      then show ?thesis
        using none n by (simp add: covering_spans_def covers_recognized [OF ok] covers_fallback)
    qed
    show ?thesis
      using lc count by blast
  qed
  show ?thesis
    using sorted bounds built by blast
qed

theorem logical_lines_cover_witness:
  "lf_tokenized
     (int (length (splitlines pair_host (''x = (1,'' @ LF @ '' 2)'' @ LF @ ''y = 3'' @ LF))))
     (fst (generate_tokens pair_host (''x = (1,'' @ LF @ '' 2)'' @ LF @ ''y = 3'' @ LF)))
   \<and> fst (iter_logical_lines pair_host (''x = (1,'' @ LF @ '' 2)'' @ LF @ ''y = 3'' @ LF)) =
       [(1, 3, 0), (3, 4, 0)]
   \<and> sorted_wrt (\<lambda>x y. fst x < fst y \<and> fst (snd x) \<le> fst y) [(1 :: int, 3 :: int, 0 :: nat), (3, 4, 0)]
   \<and> (1 :: int) < 3 \<and> (3 :: int) \<le> 3
   \<and> PythonFile_init pair_host (''x = (1,'' @ LF @ '' 2)'' @ LF @ ''y = 3'' @ LF) ''a.py'' =
       Inr pair_file
   \<and> line_count pair_file = 3
   \<and> covering_spans [(1, 3, 0), (3, 4, 0)] pair_file 1 = [(1, 3)]
   \<and> length (covering_spans [(1, 3, 0), (3, 4, 0)] pair_file 1) = 1
   \<and> covering_spans [(1, 3, 0), (3, 4, 0)] pair_file 2 = [(1, 3), (2, 3)]
   \<and> length (covering_spans [(1, 3, 0), (3, 4, 0)] pair_file 2) = 2
   \<and> continuation_line [(1, 3, 0), (3, 4, 0)] 2
   \<and> covering_spans [(1, 3, 0), (3, 4, 0)] pair_file 3 = [(3, 4)]
   \<and> length (covering_spans [(1, 3, 0), (3, 4, 0)] pair_file 3) = 1"
proof -
  note cover = logical_lines_cover [OF pair_lf_tokenized pair_found [symmetric], of "''a.py''"]
  from cover have sorted:
    "sorted_wrt (\<lambda>x y. fst x < fst y \<and> fst (snd x) \<le> fst y) [(1 :: int, 3 :: int, 0 :: nat), (3, 4, 0)]"
    by (rule conjunct1)
  from cover pair_init have built: "line_count pair_file = 3 \<and>
      (\<forall>n. 1 \<le> n \<and> n \<le> line_count pair_file \<longrightarrow>
         length (covering_spans [(1, 3, 0), (3, 4, 0)] pair_file n) =
           (if continuation_line [(1, 3, 0), (3, 4, 0)] n then 2 else 1))"
    by (simp add: pair_host_def fixed_host_def)
  have c: "\<not> continuation_line [(1, 3, 0), (3, 4, 0)] 1"
    "continuation_line [(1, 3, 0), (3, 4, 0)] 2" "\<not> continuation_line [(1, 3, 0), (3, 4, 0)] 3"
    by (simp_all add: continuation_line_def)
  from built c have lens:
    "length (covering_spans [(1, 3, 0), (3, 4, 0)] pair_file 1) = 1"
    "length (covering_spans [(1, 3, 0), (3, 4, 0)] pair_file 2) = 2"
    "length (covering_spans [(1, 3, 0), (3, 4, 0)] pair_file 3) = 1"
    by simp_all
  have spans:
    "covering_spans [(1, 3, 0), (3, 4, 0)] pair_file 1 = [(1, 3)]"
    "covering_spans [(1, 3, 0), (3, 4, 0)] pair_file 2 = [(1, 3), (2, 3)]"
    "covering_spans [(1, 3, 0), (3, 4, 0)] pair_file 3 = [(3, 4)]"
    by (simp_all add: covering_spans_def recognized_spans_def fallback_spans_def covers_def
        pair_file_def line_count_def index_of_lines_def upto.simps)
  show ?thesis
    using pair_lf_tokenized pair_found pair_init sorted built lens spans c by simp
qed

text \<open>
  C4, as stated, fails on the statement \<^verbatim>\<open>x = (1,\<close> / \<^verbatim>\<open> 2)\<close>: line 2 is no recognized start,
  so it has the fallback span \<open>(2, 3)\<close>, and it also lies in the logical line \<open>(1, 3)\<close>.
\<close>

theorem covered_twice_counterexample:
  "PythonFile_init paren_host (''x = (1,'' @ LF @ '' 2)'' @ LF) ''a.py'' = Inr paren_file
   \<and> fst (iter_logical_lines paren_host (''x = (1,'' @ LF @ '' 2)'' @ LF)) = [(1, 3, 0)]
   \<and> logical_lines paren_file 2 = None
   \<and> covering_spans [(1, 3, 0)] paren_file 2 = [(1, 3), (2, 3)]"
  using paren_init paren_found paren_covering
  by (simp add: paren_file_def index_of_lines_def)

section \<open>Lines that end in carriage return and line feed\<close>

text \<open>
  C1 claims that for every text that parses and tokenizes, \<^verbatim>\<open>line_range(n)\<close> on a line
  \<open>n\<close> of the file returns a span with \<open>1 \<le> start \<le> line count\<close> and
  \<open>start < stop \<le> line count + 1\<close>. For the one-line text \<^verbatim>\<open>x = 1\<close> that ends in carriage
  return and line feed, the tokenizer gives the \<open>NEWLINE\<close> token the text \<open>CRLF\<close>, the
  trailing loop of \<^verbatim>\<open>translate_logical_line\<close> compares with \<open>LF\<close> only, and \<^verbatim>\<open>line_range(1)\<close>
  returns the span \<open>(1, 3)\<close> in a file of one line.
\<close>

theorem line_range_crlf:
  "PythonFile_init crlf_host (''x = 1'' @ CRLF) ''a.py'' = Inr crlf_file
   \<and> line_count crlf_file = 1
   \<and> line_range crlf_file 1 = Inr (1, 3)"
  using crlf_init by (simp add: crlf_file_def line_count_def line_range_def index_of_lines_def)

text \<open>
  C3 claims that a logical line that a \<open>NEWLINE\<close> token ends has the row of that token as
  its last line (and one that \<open>ENDMARKER\<close> ends the row before the marker), the emitted
  stop being that line plus one. For the two lines \<^verbatim>\<open>x = 1\<close> and \<^verbatim>\<open>y = 2\<close>, each ended by
  carriage return and line feed, the \<open>NEWLINE\<close> tokens are on the rows 1 and 2 and the
  builder emits the stops 3 and 4: the last line used is the row after the terminator.
\<close>

theorem iter_logical_lines_crlf:
  "iter_logical_lines crlf2_host (''x = 1'' @ CRLF @ ''y = 2'' @ CRLF) =
     ([(1, 3, 0), (2, 4, 0)], None)"
  by (simp add: crlf2_host_def fixed_host_def iter_logical_lines_def iter_tokens_def
      crlf2_tokens_def eval_defs)

end
